theory Spec2Isabelle
  imports Main
begin

section \<open>Support: denylist, reserved words, identifier scrubbing\<close>

text \<open>
  Names are JavaScript strings; they are modelled as \<^typ>\<open>string\<close>, one \<^typ>\<open>char\<close> per
  ASCII character. The dictionaries \<open>blacklist\<close> and \<open>reserved\<close> of the source are plain
  objects used as sets of keys; they are modelled by the lists of the keys the source stores
  in them (property names inherited from the object prototype are outside the model).
\<close>

definition blacklist :: "string list" where
  "blacklist = [''class:NodeList'', ''class:Array'', ''class:ArrayConstructor'',
     ''field:Element.webkitRequestFullScreen'', ''field:HTMLVideoElement.webkitEnterFullscreen'',
     ''field:HTMLVideoElement.webkitExitFullscreen'']"

definition blacklisted :: "string \<Rightarrow> string \<Rightarrow> bool" where
  "blacklisted nspace name \<longleftrightarrow>
     name \<in> set blacklist \<or> nspace @ '':'' @ name \<in> set blacklist"

definition toUpperCase_char :: "char \<Rightarrow> char" where
  "toUpperCase_char c =
     (case map_of (zip ''abcdefghijklmnopqrstuvwxyz'' ''ABCDEFGHIJKLMNOPQRSTUVWXYZ'') c of
        Some u \<Rightarrow> u
      | None \<Rightarrow> c)"

fun capitalizeFirstLetter :: "string \<Rightarrow> string" where
  "capitalizeFirstLetter [] = []"
| "capitalizeFirstLetter (c # cs) = toUpperCase_char c # cs"

definition reserved :: "string list" where
  "reserved = [''addr'', ''and'', ''as'', ''asm'', ''atomic'', ''bind'', ''block'', ''break'',
     ''case'', ''cast'', ''concept'', ''const'', ''continue'', ''converter'', ''defer'',
     ''discard'', ''distinct'', ''div'', ''do'', ''elif'', ''else'', ''end'', ''enum'',
     ''except'', ''export'', ''finally'', ''for'', ''from'', ''func'', ''generic'', ''if'',
     ''import'', ''in'', ''include'', ''interface'', ''is'', ''isnot'', ''iterator'', ''let'',
     ''macro'', ''method'', ''mixin'', ''mod'', ''nil'', ''not'', ''notin'', ''object'', ''of'',
     ''or'', ''out'', ''proc'', ''ptr'', ''raise'', ''ref'', ''return'', ''shl'', ''shr'',
     ''static'', ''template'', ''try'', ''tuple'', ''type'', ''using'', ''var'', ''when'',
     ''while'', ''with'', ''without'', ''xor'', ''yield'']"

text \<open>
  \<open>id.replace(/_{2,}/, "_")\<close>: the pattern has no global flag, so only the leftmost match is
  replaced; the match is greedy, so it is the whole run of underscores that starts there.
\<close>

fun replaceUnderscores :: "string \<Rightarrow> string" where
  "replaceUnderscores [] = []"
| "replaceUnderscores [c] = [c]"
| "replaceUnderscores (c # d # cs) =
     (if c = CHR ''_'' \<and> d = CHR ''_''
      then CHR ''_'' # dropWhile (\<lambda>x. x = CHR ''_'') cs
      else c # replaceUnderscores (d # cs))"

text \<open>\<open>id.replace(/\$/, "zz")\<close>: again only the leftmost dollar sign is replaced.\<close>

fun replaceDollar :: "string \<Rightarrow> string" where
  "replaceDollar [] = []"
| "replaceDollar (c # cs) =
     (if c = CHR ''$'' then ''zz'' @ cs else c # replaceDollar cs)"

definition identifierScrub :: "string \<Rightarrow> string" where
  "identifierScrub ident =
     (let id1 = replaceDollar (replaceUnderscores ident);
          id2 = (if id1 \<noteq> [] \<and> hd id1 = CHR ''_''
                 then ''z'' @ capitalizeFirstLetter (tl id1) else id1)
      in if id2 \<in> set reserved then ''x'' @ capitalizeFirstLetter (tl id2) else id2)"

definition needIdentifierScrub :: "string \<Rightarrow> bool" where
  "needIdentifierScrub ident \<longleftrightarrow> ident \<noteq> identifierScrub ident"

text \<open>
  \<open>id.replace(/\$/, "$$$$")\<close>: in the replacement text \<open>$$\<close> stands for one dollar sign,
  so the leftmost dollar sign is doubled.
\<close>

fun importIdentifier :: "string \<Rightarrow> string" where
  "importIdentifier [] = []"
| "importIdentifier (c # cs) =
     (if c = CHR ''$'' then ''$$'' @ cs else c # importIdentifier cs)"

definition arrayFilter :: "'a option \<Rightarrow> 'a list" where
  "arrayFilter x = (case x of Some v \<Rightarrow> [v] | None \<Rightarrow> [])"

definition concatAll :: "'a list list \<Rightarrow> 'a list" where
  "concatAll x = concat x"

section \<open>The oracle: types and symbols of the checked program\<close>

text \<open>
  The type checker is an external collaborator. A type is what \<open>typeGen\<close> can tell apart
  by its flags: the four primitive kinds, a class type (given by the name of its symbol),
  and anything else, which carries the text \<open>typeToString\<close> prints for it.
\<close>

datatype tsType = TNumber | TString | TVoid | TBoolean | TClass string | TOther string

fun typeToString :: "tsType \<Rightarrow> string" where
  "typeToString TNumber = ''number''"
| "typeToString TString = ''string''"
| "typeToString TVoid = ''void''"
| "typeToString TBoolean = ''boolean''"
| "typeToString (TClass n) = n"
| "typeToString (TOther s) = s"

datatype paramSym = ParamSym (paramName: string) (paramType: tsType)

datatype callSignature =
  CallSignature (getParameters: "paramSym list") (getReturnType: tsType)

text \<open>
  A member of a class symbol, by the flag the member loop tests first: a constructor
  with the parameter symbols of each of its declarations, a property with its type, a
  method with the call signatures of its type, or anything else.
\<close>

datatype member =
    Constructor "paramSym list list"
  | Property string tsType
  | Method string "callSignature list"
  | OtherMember string

datatype classSym =
  ClassSym (symName: string) (heritage: "string option") (members: "member list")

text \<open>
  Symbols refer to each other by name; the class and interface symbols of the program are
  a finite list, and \<open>lookupSym\<close> resolves a name in it.
\<close>

definition lookupSym :: "classSym list \<Rightarrow> string \<Rightarrow> classSym option" where
  "lookupSym env n = find (\<lambda>s. symName s = n) env"

section \<open>Generators\<close>

text \<open>
  A \<open>TypeGen\<close> is a literal type or a reference to the \<open>ClassGen\<close> object registered
  under a name in the vendor's \<open>classes\<close> table. Of a referenced class the generators
  only read \<open>typeString()\<close> and \<open>dependKey()\<close>, both its name.
\<close>

datatype TypeGen = LiteralTypeGen string | ClassRef string

fun typeString :: "TypeGen \<Rightarrow> string" where
  "typeString (LiteralTypeGen literal) = literal"
| "typeString (ClassRef n) = n"

fun typeDependKey :: "TypeGen \<Rightarrow> string option" where
  "typeDependKey (LiteralTypeGen literal) = None"
| "typeDependKey (ClassRef n) = Some n"

datatype IdentifierGen = IdentifierGen (name: string) (type: TypeGen)

type_synonym VariableGen = IdentifierGen
type_synonym ParameterGen = IdentifierGen
type_synonym FieldGen = IdentifierGen

datatype SignatureGen =
  SignatureGen (sigName: string) (sigParams: "ParameterGen list") (returnType: TypeGen)
    (sigOwner: "string option")

datatype ConstructorGen =
  ConstructorGen (ctorParams: "ParameterGen list") (ctorOwner: "string option")

text \<open>
  \<open>inherit\<close> holds the parent object. A parent is only stored once it is inited, and
  no field of a \<open>ClassGen\<close> is written after \<open>init\<close>, so the model stores the parent's
  value. Before \<open>init\<close> the member lists are undefined in the source; the model has them
  empty.
\<close>

datatype ClassGen =
  ClassGen (className: string) (abstract: bool) (inherit: "ClassGen option")
    (fields: "FieldGen list") (constructors: "ConstructorGen list")
    (methods: "SignatureGen list") (inited: bool) (invalid: bool)

definition newClassGen :: "string \<Rightarrow> bool \<Rightarrow> ClassGen" where
  "newClassGen n a = ClassGen n a None [] [] [] False False"

definition init ::
  "ClassGen \<Rightarrow> ClassGen option \<Rightarrow> FieldGen list \<Rightarrow> ConstructorGen list \<Rightarrow>
   SignatureGen list \<Rightarrow> ClassGen" where
  "init this inh fs cs ms =
     ClassGen (className this) (abstract this) inh fs
       (map (\<lambda>c. ConstructorGen (ctorParams c) (Some (className this))) cs)
       (map (\<lambda>m. SignatureGen (sigName m) (sigParams m) (returnType m)
                    (Some (className this))) ms)
       True (invalid this)"

definition setInvalid :: "ClassGen \<Rightarrow> ClassGen" where
  "setInvalid g =
     ClassGen (className g) (abstract g) (inherit g) (fields g) (constructors g)
       (methods g) (inited g) True"

fun chainHasField :: "ClassGen option \<Rightarrow> string \<Rightarrow> bool" where
  "chainHasField None nm = False"
| "chainHasField (Some (ClassGen n a inh fs cs ms i v)) nm =
     (if nm \<in> set (map name fs) then True else chainHasField inh nm)"

subsection \<open>Rendering of parameters and constructors\<close>

definition parameterDeclString :: "ParameterGen \<Rightarrow> string" where
  "parameterDeclString p = identifierScrub (name p) @ '': '' @ typeString (type p)"

fun join :: "string \<Rightarrow> string list \<Rightarrow> string" where
  "join joiner [] = []"
| "join joiner [x] = x"
| "join joiner (x # y # ys) = x @ joiner @ join joiner (y # ys)"

definition params :: "ParameterGen list \<Rightarrow> string" where
  "params a = join '', '' (map parameterDeclString a)"

text \<open>
  A constructor renders against its owner; the owner is set by \<open>init\<close>, and reading it
  before that is a run-time error of the source (\<open>None\<close> here).
\<close>

definition constructorDeclString :: "ConstructorGen \<Rightarrow> string option" where
  "constructorDeclString c =
     (case ctorOwner c of
        None \<Rightarrow> None
      | Some ownerName \<Rightarrow>
          (let scrubbed = identifierScrub ownerName;
               nm = ''new'' @ capitalizeFirstLetter scrubbed
           in Some (''proc '' @ nm @ ''*('' @ params (ctorParams c) @ '') : '' @ scrubbed
                @ '' {.importcpp:\"new '' @ importIdentifier ownerName
                @ (if ctorParams c \<noteq> [] then ''(@)'' else []) @ ''\".}'')))"

section \<open>Exceptions, warnings and the vendor's state\<close>

text \<open>
  \<open>UnusableType\<close> and \<open>GenConstructFail\<close> are the two exception classes of the source.
  \<open>TypeError\<close> stands for a run-time error of the JavaScript itself (a property read on
  \<open>undefined\<close>); \<open>OutOfFuel\<close> is not an exception of the source: it is what the model
  returns when the recursion bound of \<open>classGen\<close> is used up.
\<close>

datatype error = UnusableType tsType | GenConstructFail string | TypeError | OutOfFuel

text \<open>
  One constructor for each call of \<open>warn\<close>, with the values its message interpolates.
\<close>

datatype warning =
    CouldNotTranslateFunction string nat tsType
  | CouldNotTranslateConstructor nat string tsType
  | BlacklistedField string string
  | CouldNotTranslateProperty string string tsType
  | BlacklistedMethod string string
  | CouldNotTranslateMethod string nat tsType
  | CouldNotTranslateMember string string
  | CouldNotTranslateSymbol string tsType
  | ConstructFailed string
  | MutuallyRecursive "string list"

datatype state =
  State (classes: "string \<Rightarrow> ClassGen option") (warnings: "warning list")

definition warn :: "warning \<Rightarrow> state \<Rightarrow> state" where
  "warn w st = State (classes st) (warnings st @ [w])"

definition setClass :: "string \<Rightarrow> ClassGen \<Rightarrow> state \<Rightarrow> state" where
  "setClass n g st = State ((classes st)(n \<mapsto> g)) (warnings st)"

type_synonym 'a result = "(error + 'a) \<times> state"

section \<open>The vendor\<close>

text \<open>
  \<open>typeGen\<close>, \<open>paramsGen\<close>, \<open>signatureGen\<close> and the member loops call \<open>classGen\<close>
  back through \<open>typeGen\<close>. They are written here over the class generator \<open>cg\<close> they call
  (respectively over the type generator \<open>tg\<close>), and \<open>classGen\<close> below ties the knot.
\<close>

definition typeGenWith ::
  "(state \<Rightarrow> classSym \<Rightarrow> bool \<Rightarrow> TypeGen result) \<Rightarrow> classSym list \<Rightarrow> state \<Rightarrow> tsType \<Rightarrow>
   TypeGen result" where
  "typeGenWith cg env st tsType =
     (case tsType of
        TNumber \<Rightarrow> (Inr (LiteralTypeGen ''float''), st)
      | TString \<Rightarrow> (Inr (LiteralTypeGen ''cstring''), st)
      | TVoid \<Rightarrow> (Inr (LiteralTypeGen ''void''), st)
      | TBoolean \<Rightarrow> (Inr (LiteralTypeGen ''bool''), st)
      | TClass n \<Rightarrow>
          (case lookupSym env n of
             Some symb \<Rightarrow> cg st symb False
           | None \<Rightarrow> (Inl (UnusableType tsType), st))
      | TOther s \<Rightarrow> (Inl (UnusableType tsType), st))"

fun paramsGen ::
  "(state \<Rightarrow> tsType \<Rightarrow> TypeGen result) \<Rightarrow> state \<Rightarrow> paramSym list \<Rightarrow> ParameterGen list result"
  where
  "paramsGen tg st [] = (Inr [], st)"
| "paramsGen tg st (symb # syms) =
     (case tg st (paramType symb) of
        (Inl e, st1) \<Rightarrow> (Inl e, st1)
      | (Inr t, st1) \<Rightarrow>
          (case paramsGen tg st1 syms of
             (Inl e, st2) \<Rightarrow> (Inl e, st2)
           | (Inr ps, st2) \<Rightarrow> (Inr (IdentifierGen (paramName symb) t # ps), st2)))"

definition signatureGen ::
  "(state \<Rightarrow> tsType \<Rightarrow> TypeGen result) \<Rightarrow> state \<Rightarrow> string \<Rightarrow> callSignature \<Rightarrow>
   SignatureGen result" where
  "signatureGen tg st nm callSig =
     (case paramsGen tg st (getParameters callSig) of
        (Inl e, st1) \<Rightarrow> (Inl e, st1)
      | (Inr ps, st1) \<Rightarrow>
          (case tg st1 (getReturnType callSig) of
             (Inl e, st2) \<Rightarrow> (Inl e, st2)
           | (Inr r, st2) \<Rightarrow> (Inr (SignatureGen nm ps r None), st2)))"

text \<open>
  The loop over call signatures, of \<open>functionGen\<close> and of the method branch of
  \<open>classGen\<close> alike: \<open>counter\<close> is incremented first, a signature that translates is
  pushed, an \<open>UnusableType\<close> is caught and warned about (\<open>mkWarn\<close> builds the warning of the
  loop at hand), any other exception is thrown on.
\<close>

fun signatureLoop ::
  "(state \<Rightarrow> tsType \<Rightarrow> TypeGen result) \<Rightarrow> (nat \<Rightarrow> tsType \<Rightarrow> warning) \<Rightarrow> string \<Rightarrow> nat \<Rightarrow>
   callSignature list \<Rightarrow> state \<Rightarrow> SignatureGen list \<Rightarrow> SignatureGen list result" where
  "signatureLoop tg mkWarn nm counter [] st res = (Inr res, st)"
| "signatureLoop tg mkWarn nm counter (callSig # rest) st res =
     (case signatureGen tg st nm callSig of
        (Inr s, st1) \<Rightarrow> signatureLoop tg mkWarn nm (Suc counter) rest st1 (res @ [s])
      | (Inl (UnusableType t), st1) \<Rightarrow>
          signatureLoop tg mkWarn nm (Suc counter) rest
            (warn (mkWarn (Suc counter) t) st1) res
      | (Inl e, st1) \<Rightarrow> (Inl e, st1))"

definition functionGen ::
  "(state \<Rightarrow> tsType \<Rightarrow> TypeGen result) \<Rightarrow> state \<Rightarrow> string \<Rightarrow> callSignature list \<Rightarrow>
   SignatureGen list result" where
  "functionGen tg st nm callSignatures =
     (if blacklisted ''variable'' nm
      then (Inl (GenConstructFail (''Refusing to translate blacklisted function '' @ nm)), st)
      else signatureLoop tg (CouldNotTranslateFunction nm) nm 0 callSignatures st [])"

definition variableGen ::
  "(state \<Rightarrow> tsType \<Rightarrow> TypeGen result) \<Rightarrow> state \<Rightarrow> string \<Rightarrow> tsType \<Rightarrow> VariableGen result"
  where
  "variableGen tg st nm tsType =
     (if blacklisted ''variable'' nm
      then (Inl (GenConstructFail (''Refusing to translate blacklisted variable '' @ nm)), st)
      else (case tg st tsType of
              (Inr t, st1) \<Rightarrow> (Inr (IdentifierGen nm t), st1)
            | (Inl (UnusableType ty), st1) \<Rightarrow>
                (Inl (GenConstructFail (''Could not translate variable '' @ nm
                   @ '' because couldn't translate type '' @ typeToString ty)), st1)
            | (Inl e, st1) \<Rightarrow> (Inl e, st1)))"

subsection \<open>The members of a class\<close>

text \<open>The local variables of the \<open>try\<close> block of \<open>classGen\<close> that the member loop updates.\<close>

datatype locals =
  Locals (l_fields: "FieldGen list") (l_methods: "SignatureGen list")
    (l_constructors: "ConstructorGen list") (l_foundConstructors: nat)

text \<open>The declarations of a constructor member; \<open>foundConstructors\<close> counts each one.\<close>

fun constructorLoop ::
  "(state \<Rightarrow> tsType \<Rightarrow> TypeGen result) \<Rightarrow> string \<Rightarrow> paramSym list list \<Rightarrow> state \<Rightarrow> locals \<Rightarrow>
   locals result" where
  "constructorLoop tg cname [] st l = (Inr l, st)"
| "constructorLoop tg cname (declaration # rest) st l =
     (let found = Suc (l_foundConstructors l) in
      case paramsGen tg st declaration of
        (Inr ps, st1) \<Rightarrow>
          constructorLoop tg cname rest st1
            (Locals (l_fields l) (l_methods l)
               (l_constructors l @ [ConstructorGen ps None]) found)
      | (Inl (UnusableType t), st1) \<Rightarrow>
          constructorLoop tg cname rest (warn (CouldNotTranslateConstructor found cname t) st1)
            (Locals (l_fields l) (l_methods l) (l_constructors l) found)
      | (Inl e, st1) \<Rightarrow> (Inl e, st1))"

text \<open>One round of the loop over \<open>sym.members\<close>.\<close>

definition memberGen ::
  "(state \<Rightarrow> tsType \<Rightarrow> TypeGen result) \<Rightarrow> string \<Rightarrow> ClassGen option \<Rightarrow> state \<Rightarrow> locals \<Rightarrow>
   member \<Rightarrow> locals result" where
  "memberGen tg cname inh st l m =
     (case m of
        Constructor declarations \<Rightarrow> constructorLoop tg cname declarations st l
      | Property mname memberType \<Rightarrow>
          (if blacklisted ''field'' (cname @ ''.'' @ mname)
           then (Inr l, warn (BlacklistedField mname cname) st)
           else if \<not> chainHasField inh mname
           then (case tg st memberType of
                   (Inr t, st1) \<Rightarrow>
                     (Inr (Locals (l_fields l @ [IdentifierGen mname t]) (l_methods l)
                             (l_constructors l) (l_foundConstructors l)), st1)
                 | (Inl (UnusableType ty), st1) \<Rightarrow>
                     (Inr l, warn (CouldNotTranslateProperty mname cname ty) st1)
                 | (Inl e, st1) \<Rightarrow> (Inl e, st1))
           else (Inr l, st))
      | Method mname callSignatures \<Rightarrow>
          (if blacklisted ''field'' (cname @ ''.'' @ mname)
           then (Inr l, warn (BlacklistedMethod mname cname) st)
           else (case signatureLoop tg (CouldNotTranslateMethod cname) mname 0 callSignatures
                        st (l_methods l) of
                   (Inr ms, st1) \<Rightarrow>
                     (Inr (Locals (l_fields l) ms (l_constructors l)
                             (l_foundConstructors l)), st1)
                 | (Inl e, st1) \<Rightarrow> (Inl e, st1)))
      | OtherMember mname \<Rightarrow> (Inr l, warn (CouldNotTranslateMember mname cname) st))"

fun memberLoop ::
  "(state \<Rightarrow> tsType \<Rightarrow> TypeGen result) \<Rightarrow> string \<Rightarrow> ClassGen option \<Rightarrow> member list \<Rightarrow> state \<Rightarrow>
   locals \<Rightarrow> locals result" where
  "memberLoop tg cname inh [] st l = (Inr l, st)"
| "memberLoop tg cname inh (m # ms) st l =
     (case memberGen tg cname inh st l m of
        (Inr l1, st1) \<Rightarrow> memberLoop tg cname inh ms st1 l1
      | (Inl e, st1) \<Rightarrow> (Inl e, st1))"

text \<open>
  \<open>Get superclass\<close>: the parent is built by a recursive \<open>classGen\<close>, and the object it
  returns must be inited. A heritage clause whose expression has no symbol makes the
  source read \<open>name\<close> of \<open>undefined\<close>.
\<close>

definition inheritGen ::
  "(state \<Rightarrow> classSym \<Rightarrow> bool \<Rightarrow> TypeGen result) \<Rightarrow> classSym list \<Rightarrow> state \<Rightarrow> classSym \<Rightarrow>
   ClassGen option result" where
  "inheritGen cg env st symb =
     (case heritage symb of
        None \<Rightarrow> (Inr None, st)
      | Some inheritName \<Rightarrow>
          (case lookupSym env inheritName of
             None \<Rightarrow> (Inl TypeError, st)
           | Some inheritSymbol \<Rightarrow>
               (case cg st inheritSymbol False of
                  (Inl e, st1) \<Rightarrow> (Inl e, st1)
                | (Inr (LiteralTypeGen literal), st1) \<Rightarrow> (Inl TypeError, st1)
                | (Inr (ClassRef n), st1) \<Rightarrow>
                    (case classes st1 n of
                       None \<Rightarrow> (Inl TypeError, st1)
                     | Some inh \<Rightarrow>
                         if \<not> inited inh
                         then (Inl (GenConstructFail (symName symb
                                 @ '' is mutually recursive with its ancestor ''
                                 @ inheritName @ '' in a confusing way'')), st1)
                         else (Inr (Some inh), st1)))))"

text \<open>\<open>Get constructor\<close>: what is done when the member loop found no constructor.\<close>

definition defaultConstructors :: "ClassGen option \<Rightarrow> locals \<Rightarrow> ConstructorGen list" where
  "defaultConstructors inh l =
     (if l_foundConstructors l = 0
      then (case inh of
              Some p \<Rightarrow>
                l_constructors l @ map (\<lambda>c. ConstructorGen (ctorParams c) None) (constructors p)
            | None \<Rightarrow> l_constructors l @ [ConstructorGen [] None])
      else l_constructors l)"

text \<open>The body of the \<open>try\<close> block of \<open>classGen\<close>, up to the arguments of \<open>init\<close>.\<close>

definition classBody ::
  "(state \<Rightarrow> classSym \<Rightarrow> bool \<Rightarrow> TypeGen result) \<Rightarrow> classSym list \<Rightarrow> state \<Rightarrow> classSym \<Rightarrow>
   (ClassGen option \<times> locals) result" where
  "classBody cg env st symb =
     (case inheritGen cg env st symb of
        (Inl e, st1) \<Rightarrow> (Inl e, st1)
      | (Inr inh, st1) \<Rightarrow>
          (case memberLoop (typeGenWith cg env) (symName symb) inh (members symb) st1
                  (Locals [] [] [] 0) of
             (Inl e, st2) \<Rightarrow> (Inl e, st2)
           | (Inr l, st2) \<Rightarrow> (Inr (inh, l), st2)))"

text \<open>
  \<open>classGen\<close>. The first argument after the symbol table bounds the depth of the
  recursion through parents and member types.
\<close>

fun classGen :: "classSym list \<Rightarrow> nat \<Rightarrow> state \<Rightarrow> classSym \<Rightarrow> bool \<Rightarrow> TypeGen result" where
  "classGen env 0 st symb abstr = (Inl OutOfFuel, st)"
| "classGen env (Suc fuel) st symb abstr =
     (let nm = symName symb in
      case classes st nm of
        Some already \<Rightarrow>
          if invalid already
          then (Inl (GenConstructFail ''Tried to reuse unbuildable type''), st)
          else (Inr (ClassRef nm), st)
      | None \<Rightarrow>
          if blacklisted ''class'' nm
          then (Inl (GenConstructFail (''Refusing to translate blacklisted class '' @ nm)), st)
          else
            (let result = newClassGen nm abstr in
             case classBody (classGen env fuel) env (setClass nm result st) symb of
               (Inr (inh, l), st1) \<Rightarrow>
                 (Inr (ClassRef nm),
                  setClass nm
                    (init result inh (l_fields l) (defaultConstructors inh l) (l_methods l))
                    st1)
             | (Inl e, st1) \<Rightarrow> (Inl e, setClass nm (setInvalid result) st1)))"

definition typeGen :: "classSym list \<Rightarrow> nat \<Rightarrow> state \<Rightarrow> tsType \<Rightarrow> TypeGen result" where
  "typeGen env fuel = typeGenWith (classGen env fuel) env"

section \<open>Processing the symbols in scope\<close>

text \<open>A symbol in scope, by the flag the main loop tests first.\<close>

datatype symbol =
    ClassSymbol classSym
  | InterfaceSymbol classSym
  | VariableSymbol string tsType
  | FunctionSymbol string "callSignature list"
  | OtherSymbol string tsType

text \<open>
  The array \<open>generators\<close> holds objects. A class generator in it is the object in the
  \<open>classes\<close> table, so the model keeps the reference and reads the table when the loop is
  over (\<open>resolve\<close>).
\<close>

datatype genRef = TypeRef TypeGen | VariableRef VariableGen | SignatureRef SignatureGen

datatype Gen = ClassGenerator ClassGen | VariableGenerator VariableGen
  | SignatureGenerator SignatureGen

definition symbolGen :: "classSym list \<Rightarrow> nat \<Rightarrow> state \<Rightarrow> symbol \<Rightarrow> genRef list result" where
  "symbolGen env fuel st s =
     (case s of
        ClassSymbol c \<Rightarrow>
          (case classGen env fuel st c False of
             (Inr t, st1) \<Rightarrow> (Inr [TypeRef t], st1)
           | (Inl e, st1) \<Rightarrow> (Inl e, st1))
      | InterfaceSymbol c \<Rightarrow>
          (case classGen env fuel st c True of
             (Inr t, st1) \<Rightarrow> (Inr [TypeRef t], st1)
           | (Inl e, st1) \<Rightarrow> (Inl e, st1))
      | VariableSymbol nm ty \<Rightarrow>
          (case variableGen (typeGen env fuel) st nm ty of
             (Inr v, st1) \<Rightarrow> (Inr [VariableRef v], st1)
           | (Inl e, st1) \<Rightarrow> (Inl e, st1))
      | FunctionSymbol nm callSignatures \<Rightarrow>
          (case functionGen (typeGen env fuel) st nm callSignatures of
             (Inr sigs, st1) \<Rightarrow> (Inr (map SignatureRef sigs), st1)
           | (Inl e, st1) \<Rightarrow> (Inl e, st1))
      | OtherSymbol nm ty \<Rightarrow> (Inr [], warn (CouldNotTranslateSymbol nm ty) st))"

text \<open>
  The main loop: a \<open>GenConstructFail\<close> is caught and warned about, any other exception
  ends the run.
\<close>

fun symbolLoop ::
  "classSym list \<Rightarrow> nat \<Rightarrow> symbol list \<Rightarrow> state \<Rightarrow> genRef list \<Rightarrow> genRef list result" where
  "symbolLoop env fuel [] st generators = (Inr generators, st)"
| "symbolLoop env fuel (s # rest) st generators =
     (case symbolGen env fuel st s of
        (Inr new, st1) \<Rightarrow> symbolLoop env fuel rest st1 (generators @ new)
      | (Inl (GenConstructFail message), st1) \<Rightarrow>
          symbolLoop env fuel rest (warn (ConstructFailed message) st1) generators
      | (Inl e, st1) \<Rightarrow> (Inl e, st1))"

definition resolve :: "state \<Rightarrow> genRef \<Rightarrow> Gen option" where
  "resolve st r =
     (case r of
        TypeRef (ClassRef n) \<Rightarrow> map_option ClassGenerator (classes st n)
      | TypeRef (LiteralTypeGen literal) \<Rightarrow> None
      | VariableRef v \<Rightarrow> Some (VariableGenerator v)
      | SignatureRef s \<Rightarrow> Some (SignatureGenerator s))"

definition emptyState :: state where
  "emptyState = State (\<lambda>n. None) []"

definition generatorsOf ::
  "classSym list \<Rightarrow> nat \<Rightarrow> symbol list \<Rightarrow> error + (Gen list \<times> warning list)" where
  "generatorsOf env fuel symbols =
     (case symbolLoop env fuel symbols emptyState [] of
        (Inl e, st) \<Rightarrow> Inl e
      | (Inr refs, st) \<Rightarrow>
          (case those (map (resolve st) refs) of
             None \<Rightarrow> Inl TypeError
           | Some gens \<Rightarrow> Inr (gens, warnings st)))"

section \<open>Dependencies and the order of emission\<close>

definition identifierDepends :: "IdentifierGen \<Rightarrow> string list" where
  "identifierDepends i = arrayFilter (typeDependKey (type i))"

definition signatureDepends :: "SignatureGen \<Rightarrow> string list" where
  "signatureDepends s =
     concatAll (map identifierDepends (sigParams s)) @ arrayFilter (typeDependKey (returnType s))"

definition constructorDepends :: "ConstructorGen \<Rightarrow> string list" where
  "constructorDepends c = concatAll (map identifierDepends (ctorParams c))"

definition classDepends :: "ClassGen \<Rightarrow> string list" where
  "classDepends g =
     concatAll [concatAll (map identifierDepends (fields g)),
                concatAll (map constructorDepends (constructors g)),
                concatAll (map signatureDepends (methods g))]
     @ (case inherit g of Some p \<Rightarrow> [className p] | None \<Rightarrow> [])"

fun depends :: "Gen \<Rightarrow> string list" where
  "depends (ClassGenerator g) = classDepends g"
| "depends (VariableGenerator v) = identifierDepends v"
| "depends (SignatureGenerator s) = signatureDepends s"

fun dependKey :: "Gen \<Rightarrow> string" where
  "dependKey (ClassGenerator g) = className g"
| "dependKey (VariableGenerator v) = name v"
| "dependKey (SignatureGenerator s) = sigName s"

subsection \<open>The dependency graph\<close>

text \<open>
  The graph object of the graph library, as far as the program uses it: the node ids in
  the order they were added, the label of a node (absent for a node that was only ever
  the end of an edge), and the edges. \<open>setNode\<close> with a label adds the node or replaces
  its label; \<open>setEdge\<close> adds both ends as nodes when they are new.
\<close>

datatype graph =
  Graph (nodeIds: "string list") (node: "string \<Rightarrow> Gen option")
    (edges: "(string \<times> string) list")

definition emptyGraph :: graph where
  "emptyGraph = Graph [] (\<lambda>v. None) []"

definition addNode :: "string \<Rightarrow> graph \<Rightarrow> graph" where
  "addNode v g =
     (if v \<in> set (nodeIds g) then g else Graph (nodeIds g @ [v]) (node g) (edges g))"

definition setNode :: "string \<Rightarrow> Gen \<Rightarrow> graph \<Rightarrow> graph" where
  "setNode v label g =
     (let g1 = addNode v g in Graph (nodeIds g1) ((node g1)(v \<mapsto> label)) (edges g1))"

definition setEdge :: "string \<Rightarrow> string \<Rightarrow> graph \<Rightarrow> graph" where
  "setEdge v w g =
     (let g1 = addNode w (addNode v g)
      in if (v, w) \<in> set (edges g1) then g1
         else Graph (nodeIds g1) (node g1) (edges g1 @ [(v, w)]))"

definition addGenerator :: "Gen \<Rightarrow> graph \<Rightarrow> graph" where
  "addGenerator gen g =
     (let key = dependKey gen
      in fold (\<lambda>dep. setEdge key dep) (depends gen) (setNode key gen g))"

definition dependencies :: "Gen list \<Rightarrow> graph" where
  "dependencies generators = fold addGenerator generators emptyGraph"

text \<open>
  \<open>graphlib.alg.tarjan\<close> belongs to the graph library, not to the program. Its result
  is an argument of the model, and \<open>tarjanResult\<close> is what the library and the comment
  above the call promise of it (strongly connected components, in reverse topological
  order): the components partition the nodes, every edge leads into the component of its
  source or into an earlier one, and the members of a component reach each other.
\<close>

definition tarjanResult :: "graph \<Rightarrow> string list list \<Rightarrow> bool" where
  "tarjanResult g sccs \<longleftrightarrow>
     distinct (concat sccs) \<and> set (concat sccs) = set (nodeIds g) \<and> [] \<notin> set sccs \<and>
     (\<forall>i < length sccs. \<forall>(v, w) \<in> set (edges g).
        v \<in> set (sccs ! i) \<longrightarrow> w \<in> set (concat (take (Suc i) sccs))) \<and>
     (\<forall>scc \<in> set sccs. \<forall>v \<in> set scc. \<forall>w \<in> set scc. (v, w) \<in> (set (edges g))\<^sup>*)"

definition groupedGenerators :: "graph \<Rightarrow> string list list \<Rightarrow> Gen option list list" where
  "groupedGenerators g sccs = map (\<lambda>scc. map (\<lambda>v. node g v) scc) sccs"

text \<open>
  The last loop. For a group of more than one member the warning calls \<open>dependKey\<close> on
  every member, which fails on a node without a label; a group of one is pushed when its
  label is there.
\<close>

fun sortedLoop ::
  "Gen option list list \<Rightarrow> Gen list \<Rightarrow> warning list \<Rightarrow> error + (Gen list \<times> warning list)" where
  "sortedLoop [] acc ws = Inr (acc, ws)"
| "sortedLoop (grp # rest) acc ws =
     (if length grp > 1
      then (case those grp of
              None \<Rightarrow> Inl TypeError
            | Some gens \<Rightarrow> sortedLoop rest acc (ws @ [MutuallyRecursive (map dependKey gens)]))
      else (case grp of
              [Some gen] \<Rightarrow> sortedLoop rest (acc @ [gen]) ws
            | _ \<Rightarrow> sortedLoop rest acc ws))"

definition sortedGenerators ::
  "Gen list \<Rightarrow> string list list \<Rightarrow> error + (Gen list \<times> warning list)" where
  "sortedGenerators generators sccs =
     sortedLoop (groupedGenerators (dependencies generators) sccs) [] []"

section \<open>What is built, read off the symbols\<close>

text \<open>
  The generators a run can end with, described without the table and the warnings: the
  type generator a type gets when \<open>typeGen\<close> does not raise (\<open>None\<close> where it raises
  \<open>UnusableType\<close>: any type but the four primitive kinds and a class with a symbol), the
  parameters of a parameter list and the signature of a call signature when every type in
  them has one, and for a member of a class the fields, methods and constructor parameter
  lists it contributes. The theorems below relate \<open>functionGen\<close> and \<open>classGen\<close> to them.
\<close>

definition typeOf :: "classSym list \<Rightarrow> tsType \<Rightarrow> TypeGen option" where
  "typeOf env tsType =
     (case tsType of
        TNumber \<Rightarrow> Some (LiteralTypeGen ''float'')
      | TString \<Rightarrow> Some (LiteralTypeGen ''cstring'')
      | TVoid \<Rightarrow> Some (LiteralTypeGen ''void'')
      | TBoolean \<Rightarrow> Some (LiteralTypeGen ''bool'')
      | TClass n \<Rightarrow> (case lookupSym env n of Some s \<Rightarrow> Some (ClassRef n) | None \<Rightarrow> None)
      | TOther s \<Rightarrow> None)"

definition parametersOf :: "classSym list \<Rightarrow> paramSym list \<Rightarrow> ParameterGen list option" where
  "parametersOf env syms =
     those (map (\<lambda>s. map_option (IdentifierGen (paramName s)) (typeOf env (paramType s))) syms)"

definition signatureOf :: "classSym list \<Rightarrow> string \<Rightarrow> callSignature \<Rightarrow> SignatureGen option" where
  "signatureOf env nm callSig =
     (case parametersOf env (getParameters callSig) of
        None \<Rightarrow> None
      | Some ps \<Rightarrow>
          map_option (\<lambda>r. SignatureGen nm ps r None) (typeOf env (getReturnType callSig)))"

definition memberFields ::
  "classSym list \<Rightarrow> string \<Rightarrow> ClassGen option \<Rightarrow> member \<Rightarrow> FieldGen list" where
  "memberFields env cname inh m =
     (case m of
        Property mname memberType \<Rightarrow>
          (if blacklisted ''field'' (cname @ ''.'' @ mname) \<or> chainHasField inh mname then []
           else (case typeOf env memberType of
                   Some t \<Rightarrow> [IdentifierGen mname t]
                 | None \<Rightarrow> []))
      | _ \<Rightarrow> [])"

definition memberMethods :: "classSym list \<Rightarrow> string \<Rightarrow> member \<Rightarrow> SignatureGen list" where
  "memberMethods env cname m =
     (case m of
        Method mname callSignatures \<Rightarrow>
          (if blacklisted ''field'' (cname @ ''.'' @ mname) then []
           else List.map_filter (signatureOf env mname) callSignatures)
      | _ \<Rightarrow> [])"

definition memberDeclarations :: "member \<Rightarrow> paramSym list list" where
  "memberDeclarations m = (case m of Constructor declarations \<Rightarrow> declarations | _ \<Rightarrow> [])"

definition memberConstructors :: "classSym list \<Rightarrow> member \<Rightarrow> ParameterGen list list" where
  "memberConstructors env m = List.map_filter (parametersOf env) (memberDeclarations m)"









section \<open>Example programs\<close>




text \<open>A class with a field of the type of its own subclass: building \<open>X\<close> builds \<open>Y\<close>,
  whose parent \<open>X\<close> is then still under construction.\<close>

definition exX :: classSym where
  "exX = ClassSym ''X'' None [Property ''y'' (TClass ''Y'')]"

definition exY :: classSym where
  "exY = ClassSym ''Y'' (Some ''X'') []"

text \<open>A parent with three constructor declarations, one of them untranslatable, and a
  child without constructors that repeats a field of the parent.\<close>

definition exP :: classSym where
  "exP = ClassSym ''P'' None
     [Constructor [[ParamSym ''x'' TNumber],
                   [ParamSym ''s'' TString, ParamSym ''o'' (TOther ''any'')],
                   []],
      Property ''f'' TNumber]"

definition exC :: classSym where
  "exC = ClassSym ''C'' (Some ''P'') [Property ''f'' TNumber, Property ''g'' TBoolean]"

text \<open>A class whose only constructor cannot be translated.\<close>

definition exQ :: classSym where
  "exQ = ClassSym ''Q'' None [Constructor [[ParamSym ''o'' (TOther ''any'')]]]"

text \<open>A child of \<open>P\<close> whose only constructor cannot be translated.\<close>

definition exD :: classSym where
  "exD = ClassSym ''D'' (Some ''P'') [Constructor [[ParamSym ''o'' (TOther ''any'')]]]"



text \<open>A class with a field of its own type.\<close>

definition exSelf :: classSym where
  "exSelf = ClassSym ''Foo'' None [Property ''self'' (TClass ''Foo'')]"

text \<open>A denylisted field that the parent declares as well.\<close>

definition exNode :: classSym where
  "exNode = ClassSym ''Node'' None [Property ''webkitRequestFullScreen'' TBoolean]"

definition exElement :: classSym where
  "exElement = ClassSym ''Element'' (Some ''Node'')
     [Property ''webkitRequestFullScreen'' TBoolean]"

text \<open>States and generators the examples arrive at.\<close>

definition exFailed :: state where
  "exFailed = State ((\<lambda>n. None)(''X'' \<mapsto> ClassGen ''X'' False None [] [] [] False True,
                         ''Y'' \<mapsto> ClassGen ''Y'' False None [] [] [] False True)) []"

definition exPGen :: ClassGen where
  "exPGen = ClassGen ''P'' False None [IdentifierGen ''f'' (LiteralTypeGen ''float'')]
     [ConstructorGen [IdentifierGen ''x'' (LiteralTypeGen ''float'')] (Some ''P''),
      ConstructorGen [] (Some ''P'')] [] True False"

definition exCGen :: ClassGen where
  "exCGen = ClassGen ''C'' False (Some exPGen) [IdentifierGen ''g'' (LiteralTypeGen ''bool'')]
     [ConstructorGen [IdentifierGen ''x'' (LiteralTypeGen ''float'')] (Some ''C''),
      ConstructorGen [] (Some ''C'')] [] True False"

definition exBuiltC :: state where
  "exBuiltC = State ((\<lambda>n. None)(''C'' \<mapsto> exCGen, ''P'' \<mapsto> exPGen))
     [CouldNotTranslateConstructor 2 ''P'' (TOther ''any'')]"

definition exNodeGen :: ClassGen where
  "exNodeGen = ClassGen ''Node'' False None
     [IdentifierGen ''webkitRequestFullScreen'' (LiteralTypeGen ''bool'')]
     [ConstructorGen [] (Some ''Node'')] [] True False"

definition exBuildingX :: state where
  "exBuildingX = setClass ''X'' (newClassGen ''X'' False) emptyState"

definition exBuildingFoo :: state where
  "exBuildingFoo = setClass ''Foo'' (newClassGen ''Foo'' False) emptyState"

definition exDGen :: ClassGen where
  "exDGen = ClassGen ''D'' False (Some exPGen) [] [] [] True False"

definition exBuiltD :: state where
  "exBuiltD = State ((\<lambda>n. None)(''D'' \<mapsto> exDGen, ''P'' \<mapsto> exPGen))
     [CouldNotTranslateConstructor 2 ''P'' (TOther ''any''),
      CouldNotTranslateConstructor 1 ''D'' (TOther ''any'')]"

text \<open>Generators as the vendor builds them for the examples, and a list of generators
  with a class, its parent and a variable of the class.\<close>

definition exSelfGen :: ClassGen where
  "exSelfGen = ClassGen ''Foo'' False None [IdentifierGen ''self'' (ClassRef ''Foo'')]
     [ConstructorGen [] (Some ''Foo'')] [] True False"

definition exGens :: "Gen list" where
  "exGens = [ClassGenerator exCGen, ClassGenerator exPGen,
     VariableGenerator (IdentifierGen ''v'' (ClassRef ''C''))]"

text \<open>Two classes with a field of the type of each other; and two such classes of which
  one has a field of its own type as well.\<close>

definition exA :: classSym where
  "exA = ClassSym ''A'' None [Property ''b'' (TClass ''B'')]"

definition exB :: classSym where
  "exB = ClassSym ''B'' None [Property ''a'' (TClass ''A'')]"

definition exAGen :: ClassGen where
  "exAGen = ClassGen ''A'' False None [IdentifierGen ''b'' (ClassRef ''B'')]
     [ConstructorGen [] (Some ''A'')] [] True False"

definition exBGen :: ClassGen where
  "exBGen = ClassGen ''B'' False None [IdentifierGen ''a'' (ClassRef ''A'')]
     [ConstructorGen [] (Some ''B'')] [] True False"

definition exS :: classSym where
  "exS = ClassSym ''S'' None [Property ''me'' (TClass ''S''), Property ''other'' (TClass ''T'')]"

definition exT :: classSym where
  "exT = ClassSym ''T'' None [Property ''back'' (TClass ''S'')]"

definition exSGen :: ClassGen where
  "exSGen = ClassGen ''S'' False None
     [IdentifierGen ''me'' (ClassRef ''S''), IdentifierGen ''other'' (ClassRef ''T'')]
     [ConstructorGen [] (Some ''S'')] [] True False"

definition exTGen :: ClassGen where
  "exTGen = ClassGen ''T'' False None [IdentifierGen ''back'' (ClassRef ''S'')]
     [ConstructorGen [] (Some ''T'')] [] True False"

text \<open>Two interfaces with a field of the type of each other. The type of such a field
  has the flag \<open>Interface\<close>, not \<open>Class\<close>: to \<open>typeGen\<close> it is one of the other types.\<close>

definition exIA :: classSym where
  "exIA = ClassSym ''A'' None [Property ''b'' (TOther ''B'')]"

definition exIB :: classSym where
  "exIB = ClassSym ''B'' None [Property ''a'' (TOther ''A'')]"

definition exIAGen :: ClassGen where
  "exIAGen = ClassGen ''A'' True None [] [ConstructorGen [] (Some ''A'')] [] True False"

definition exIBGen :: ClassGen where
  "exIBGen = ClassGen ''B'' True None [] [ConstructorGen [] (Some ''B'')] [] True False"

text \<open>A class \<open>A\<close> with a field of the type of the class \<open>B\<close> above, which has a field
  of type \<open>A\<close>, and with a field of the type of a denylisted class.\<close>

definition exNodeList :: classSym where
  "exNodeList = ClassSym ''NodeList'' None []"

definition exFA :: classSym where
  "exFA = ClassSym ''A'' None
     [Property ''b'' (TClass ''B''), Property ''list'' (TClass ''NodeList'')]"

section \<open>Properties of the vendor\<close>

subsection \<open>Invariants carried through the loops\<close>

text \<open>
  The loops raise nothing of their own and touch the state only through the type generator
  and \<open>warn\<close>: whatever the type generator keeps invariant they keep invariant, and an
  error they return is one the type generator returned.
\<close>

lemma paramsGen_inv:
  assumes tg: "\<And>s ty. I s \<Longrightarrow> I (snd (tg s ty)) \<and> (\<forall>e. fst (tg s ty) = Inl e \<longrightarrow> B e)"
  shows "I st \<Longrightarrow> I (snd (paramsGen tg st ps)) \<and> (\<forall>e. fst (paramsGen tg st ps) = Inl e \<longrightarrow> B e)"
proof (induction ps arbitrary: st)
  case Nil
  then show ?case by simp
next
  case (Cons p ps)
  obtain r st1 where r: "tg st (paramType p) = (r, st1)" by (cases "tg st (paramType p)")
  from tg [OF Cons.prems, of "paramType p"] r
  have st1: "I st1" and e1: "\<And>e. r = Inl e \<Longrightarrow> B e" by auto
  show ?case
  proof (cases r)
    case (Inl e)
    with r st1 e1 show ?thesis by simp
  next
    case (Inr t)
    obtain r2 st2 where r2: "paramsGen tg st1 ps = (r2, st2)" by (cases "paramsGen tg st1 ps")
    from Cons.IH [OF st1] r2 have "I st2" and "\<And>e. r2 = Inl e \<Longrightarrow> B e" by auto
    with r Inr r2 show ?thesis by (cases r2) auto
  qed
qed

lemma signatureGen_inv:
  assumes tg: "\<And>s ty. I s \<Longrightarrow> I (snd (tg s ty)) \<and> (\<forall>e. fst (tg s ty) = Inl e \<longrightarrow> B e)"
    and st: "I st"
  shows "I (snd (signatureGen tg st nm cs)) \<and> (\<forall>e. fst (signatureGen tg st nm cs) = Inl e \<longrightarrow> B e)"
proof -
  obtain r st1 where r: "paramsGen tg st (getParameters cs) = (r, st1)"
    by (cases "paramsGen tg st (getParameters cs)")
  from paramsGen_inv [of I tg B, OF tg st, of "getParameters cs"] r
  have st1: "I st1" and e1: "\<And>e. r = Inl e \<Longrightarrow> B e" by auto
  show ?thesis
  proof (cases r)
    case (Inl e)
    with r st1 e1 show ?thesis by (simp add: signatureGen_def)
  next
    case (Inr ps)
    obtain r2 st2 where r2: "tg st1 (getReturnType cs) = (r2, st2)"
      by (cases "tg st1 (getReturnType cs)")
    from tg [OF st1, of "getReturnType cs"] r2 have "I st2" and "\<And>e. r2 = Inl e \<Longrightarrow> B e" by auto
    with r Inr r2 show ?thesis by (cases r2) (auto simp: signatureGen_def)
  qed
qed

lemma signatureLoop_inv:
  assumes tg: "\<And>s ty. I s \<Longrightarrow> I (snd (tg s ty)) \<and> (\<forall>e. fst (tg s ty) = Inl e \<longrightarrow> B e)"
    and w: "\<And>w s. I s \<Longrightarrow> I (warn w s)"
  shows "I st \<Longrightarrow> I (snd (signatureLoop tg mk nm k sigs st res)) \<and>
    (\<forall>e. fst (signatureLoop tg mk nm k sigs st res) = Inl e \<longrightarrow> B e)"
proof (induction sigs arbitrary: st res k)
  case Nil
  then show ?case by simp
next
  case (Cons c sigs)
  obtain r st1 where r: "signatureGen tg st nm c = (r, st1)" by (cases "signatureGen tg st nm c")
  from signatureGen_inv [of I tg B, OF tg Cons.prems, of nm c] r
  have st1: "I st1" and e1: "\<And>e. r = Inl e \<Longrightarrow> B e" by auto
  show ?case
  proof (cases r)
    case (Inr s)
    with r Cons.IH [OF st1] show ?thesis by simp
  next
    case (Inl e)
    show ?thesis
    proof (cases e)
      case (UnusableType t)
      with r Inl Cons.IH [OF w [OF st1]] show ?thesis by simp
    qed (use r Inl st1 e1 in auto)
  qed
qed

lemma constructorLoop_inv:
  assumes tg: "\<And>s ty. I s \<Longrightarrow> I (snd (tg s ty)) \<and> (\<forall>e. fst (tg s ty) = Inl e \<longrightarrow> B e)"
    and w: "\<And>w s. I s \<Longrightarrow> I (warn w s)"
  shows "I st \<Longrightarrow> I (snd (constructorLoop tg cn ds st l)) \<and>
    (\<forall>e. fst (constructorLoop tg cn ds st l) = Inl e \<longrightarrow> B e)"
proof (induction ds arbitrary: st l)
  case Nil
  then show ?case by simp
next
  case (Cons d ds)
  obtain r st1 where r: "paramsGen tg st d = (r, st1)" by (cases "paramsGen tg st d")
  from paramsGen_inv [of I tg B, OF tg Cons.prems, of d] r
  have st1: "I st1" and e1: "\<And>e. r = Inl e \<Longrightarrow> B e" by auto
  show ?case
  proof (cases r)
    case (Inr s)
    with r Cons.IH [OF st1] show ?thesis by (simp add: Let_def)
  next
    case (Inl e)
    show ?thesis
    proof (cases e)
      case (UnusableType t)
      with r Inl Cons.IH [OF w [OF st1]] show ?thesis by (simp add: Let_def)
    qed (use r Inl st1 e1 in \<open>auto simp: Let_def\<close>)
  qed
qed

lemma memberGen_inv:
  assumes tg: "\<And>s ty. I s \<Longrightarrow> I (snd (tg s ty)) \<and> (\<forall>e. fst (tg s ty) = Inl e \<longrightarrow> B e)"
    and w: "\<And>w s. I s \<Longrightarrow> I (warn w s)"
    and st: "I st"
  shows "I (snd (memberGen tg cn inh st l m)) \<and>
    (\<forall>e. fst (memberGen tg cn inh st l m) = Inl e \<longrightarrow> B e)"
proof (cases m)
  case (Constructor ds)
  with constructorLoop_inv [of I tg B, OF tg w st] show ?thesis by (simp add: memberGen_def)
next
  case (Property mn ty)
  obtain r st1 where r: "tg st ty = (r, st1)" by (cases "tg st ty")
  from tg [OF st, of ty] r have st1: "I st1" and e1: "\<And>e. r = Inl e \<Longrightarrow> B e" by auto
  show ?thesis
  proof (cases r)
    case (Inr t)
    with Property r st st1 w show ?thesis by (simp add: memberGen_def)
  next
    case (Inl e)
    with Property r st st1 w e1 show ?thesis by (cases e) (auto simp: memberGen_def)
  qed
next
  case (Method mn sigs)
  obtain r st1 where r: "signatureLoop tg (CouldNotTranslateMethod cn) mn 0 sigs st (l_methods l) = (r, st1)"
    by (cases "signatureLoop tg (CouldNotTranslateMethod cn) mn 0 sigs st (l_methods l)")
  from signatureLoop_inv [of I tg B, OF tg w st, of "CouldNotTranslateMethod cn" mn 0 sigs "l_methods l"] r
  have st1: "I st1" and e1: "\<And>e. r = Inl e \<Longrightarrow> B e" by auto
  with Method r st w show ?thesis by (cases r) (auto simp: memberGen_def)
next
  case (OtherMember mn)
  with st w show ?thesis by (simp add: memberGen_def)
qed

lemma memberLoop_inv:
  assumes tg: "\<And>s ty. I s \<Longrightarrow> I (snd (tg s ty)) \<and> (\<forall>e. fst (tg s ty) = Inl e \<longrightarrow> B e)"
    and w: "\<And>w s. I s \<Longrightarrow> I (warn w s)"
  shows "I st \<Longrightarrow> I (snd (memberLoop tg cn inh ms st l)) \<and>
    (\<forall>e. fst (memberLoop tg cn inh ms st l) = Inl e \<longrightarrow> B e)"
proof (induction ms arbitrary: st l)
  case Nil
  then show ?case by simp
next
  case (Cons m ms)
  obtain r st1 where r: "memberGen tg cn inh st l m = (r, st1)" by (cases "memberGen tg cn inh st l m")
  from memberGen_inv [of I tg B, OF tg w Cons.prems, of cn inh l m] r
  have st1: "I st1" and e1: "\<And>e. r = Inl e \<Longrightarrow> B e" by auto
  with r Cons.IH [OF st1] show ?case by (cases r) auto
qed


lemma lookupSym_Some:
  "lookupSym env n = Some c \<Longrightarrow> c \<in> set env \<and> symName c = n"
  by (auto simp: lookupSym_def find_Some_iff)

lemma typeGenWith_inv:
  assumes cg: "\<And>s c a. I s \<Longrightarrow> c \<in> set env \<Longrightarrow>
      I (snd (cg s c a)) \<and> (\<forall>e. fst (cg s c a) = Inl e \<longrightarrow> B e)"
    and B: "\<And>t. B (UnusableType t)"
    and st: "I st"
  shows "I (snd (typeGenWith cg env st ty)) \<and> (\<forall>e. fst (typeGenWith cg env st ty) = Inl e \<longrightarrow> B e)"
proof (cases ty)
  case (TClass n)
  show ?thesis
  proof (cases "lookupSym env n")
    case None
    with TClass st B show ?thesis by (simp add: typeGenWith_def)
  next
    case (Some c)
    with lookupSym_Some [OF Some] cg [OF st, of c False] TClass show ?thesis
      by (simp add: typeGenWith_def)
  qed
qed (use st B in \<open>auto simp: typeGenWith_def\<close>)

lemma inheritGen_inv:
  assumes cg: "\<And>s c a. I s \<Longrightarrow> c \<in> set env \<Longrightarrow>
      I (snd (cg s c a)) \<and> (\<forall>e. fst (cg s c a) = Inl e \<longrightarrow> B e)"
    and B: "B TypeError" "\<And>m. B (GenConstructFail m)"
    and st: "I st"
  shows "I (snd (inheritGen cg env st c)) \<and> (\<forall>e. fst (inheritGen cg env st c) = Inl e \<longrightarrow> B e)"
proof (cases "heritage c")
  case None
  with st show ?thesis by (simp add: inheritGen_def)
next
  case (Some pn)
  show ?thesis
  proof (cases "lookupSym env pn")
    case None
    with Some st B show ?thesis by (simp add: inheritGen_def)
  next
    case (Some p)
    obtain r st1 where r: "cg st p False = (r, st1)" by (cases "cg st p False")
    from lookupSym_Some [OF Some] cg [OF st, of p False] r
    have st1: "I st1" and e1: "\<And>e. r = Inl e \<Longrightarrow> B e" by auto
    from \<open>heritage c = Some pn\<close> Some r st1 e1 B show ?thesis
      by (auto simp: inheritGen_def split: sum.splits TypeGen.splits option.splits)
  qed
qed

lemma classBody_inv:
  assumes cg: "\<And>s c a. I s \<Longrightarrow> c \<in> set env \<Longrightarrow>
      I (snd (cg s c a)) \<and> (\<forall>e. fst (cg s c a) = Inl e \<longrightarrow> B e)"
    and B: "B TypeError" "\<And>m. B (GenConstructFail m)" "\<And>t. B (UnusableType t)"
    and w: "\<And>w s. I s \<Longrightarrow> I (warn w s)"
    and st: "I st"
  shows "I (snd (classBody cg env st c)) \<and> (\<forall>e. fst (classBody cg env st c) = Inl e \<longrightarrow> B e)"
proof -
  obtain r st1 where r: "inheritGen cg env st c = (r, st1)" by (cases "inheritGen cg env st c")
  from inheritGen_inv [of I env cg B, OF cg B(1,2) st, of c] r
  have st1: "I st1" and e1: "\<And>e. r = Inl e \<Longrightarrow> B e" by auto
  show ?thesis
  proof (cases r)
    case (Inl e)
    with r st1 e1 show ?thesis by (simp add: classBody_def)
  next
    case (Inr inh)
    have tg: "\<And>s ty. I s \<Longrightarrow> I (snd (typeGenWith cg env s ty)) \<and>
        (\<forall>e. fst (typeGenWith cg env s ty) = Inl e \<longrightarrow> B e)"
      using typeGenWith_inv [of I env cg B, OF cg B(3)] by blast
    obtain r2 st2 where r2:
      "memberLoop (typeGenWith cg env) (symName c) inh (members c) st1 (Locals [] [] [] 0) = (r2, st2)"
      by (cases "memberLoop (typeGenWith cg env) (symName c) inh (members c) st1 (Locals [] [] [] 0)")
    from memberLoop_inv [of I "typeGenWith cg env" B, OF tg w st1, of "symName c" inh "members c" "Locals [] [] [] 0"] r2
    have "I st2" and "\<And>e. r2 = Inl e \<Longrightarrow> B e" by auto
    with r Inr r2 show ?thesis by (cases r2) (auto simp: classBody_def)
  qed
qed

text \<open>An entry of the table, once there, is never changed by a later call.\<close>

lemma classes_warn [simp]: "classes (warn w st) = classes st"
  by (simp add: warn_def)

lemma classes_setClass [simp]: "classes (setClass n g st) = (classes st)(n \<mapsto> g)"
  by (simp add: setClass_def)

lemma classGen_preserves:
  "classes st n = Some g \<Longrightarrow> classes (snd (classGen env fuel st c a)) n = Some g"
proof (induction fuel arbitrary: st c a n g)
  case 0
  then show ?case by simp
next
  case (Suc fuel)
  let ?nm = "symName c"
  show ?case
  proof (cases "classes st ?nm")
    case (Some already)
    with Suc.prems show ?thesis by (simp add: Let_def)
  next
    case None
    show ?thesis
    proof (cases "blacklisted ''class'' ?nm")
      case True
      with None Suc.prems show ?thesis by (simp add: Let_def)
    next
      case False
      let ?st0 = "setClass ?nm (newClassGen ?nm a) st"
      let ?I = "\<lambda>s. \<forall>n g. classes ?st0 n = Some g \<longrightarrow> classes s n = Some g"
      have cg: "\<And>s c a. ?I s \<Longrightarrow> c \<in> set env \<Longrightarrow>
          ?I (snd (classGen env fuel s c a)) \<and>
          (\<forall>e. fst (classGen env fuel s c a) = Inl e \<longrightarrow> True)"
        using Suc.IH by blast
      have "?I (snd (classBody (classGen env fuel) env ?st0 c))"
        using classBody_inv [of ?I env "classGen env fuel" "\<lambda>e. True" ?st0 c, OF cg] by simp
      moreover
      obtain r st1 where r: "classBody (classGen env fuel) env ?st0 c = (r, st1)"
        by (cases "classBody (classGen env fuel) env ?st0 c")
      moreover from None Suc.prems have "n \<noteq> ?nm" by auto
      ultimately have "classes st1 n = Some g" using Suc.prems by simp
      with r None False \<open>n \<noteq> ?nm\<close> show ?thesis
        by (cases r) (auto simp: Let_def split: prod.splits)
    qed
  qed
qed


lemma classGen_dom_mono:
  "dom (classes st) \<subseteq> dom (classes (snd (classGen env fuel st c a)))"
  using classGen_preserves [of st _ _ env fuel c a] by (auto simp: dom_def)

lemma classGen_fuel_env:
  "c \<in> set env \<Longrightarrow> card (symName ` set env - dom (classes st)) < fuel \<Longrightarrow>
   fst (classGen env fuel st c a) \<noteq> Inl OutOfFuel"
proof (induction fuel arbitrary: st c a)
  case 0
  then show ?case by simp
next
  case (Suc fuel)
  let ?nm = "symName c"
  let ?S = "symName ` set env"
  show ?case
  proof (cases "classes st ?nm")
    case (Some already)
    then show ?thesis by (simp add: Let_def)
  next
    case None
    show ?thesis
    proof (cases "blacklisted ''class'' ?nm")
      case True
      with None show ?thesis by (simp add: Let_def)
    next
      case False
      let ?st0 = "setClass ?nm (newClassGen ?nm a) st"
      let ?I = "\<lambda>s. card (?S - dom (classes s)) < fuel"
      have "?nm \<in> ?S - dom (classes st)" using Suc.prems(1) None by (auto simp: dom_def)
      moreover have "?S - dom (classes ?st0) = (?S - dom (classes st)) - {?nm}" by auto
      ultimately have "card (?S - dom (classes ?st0)) = card (?S - dom (classes st)) - 1"
        by simp
      with Suc.prems(2) \<open>?nm \<in> ?S - dom (classes st)\<close> have st0: "?I ?st0"
        by (metis One_nat_def Suc_pred card_gt_0_iff empty_iff finite_Diff finite_imageI
            finite_set less_Suc_eq_le not_less_eq_eq not_less)
      have cg: "\<And>s c a. ?I s \<Longrightarrow> c \<in> set env \<Longrightarrow>
          ?I (snd (classGen env fuel s c a)) \<and>
          (\<forall>e. fst (classGen env fuel s c a) = Inl e \<longrightarrow> e \<noteq> OutOfFuel)"
      proof (intro conjI allI impI)
        fix s c a
        assume s: "?I s" and c: "c \<in> set env"
        have "?S - dom (classes (snd (classGen env fuel s c a))) \<subseteq> ?S - dom (classes s)"
          using classGen_dom_mono [of s env fuel c a] by auto
        then have "card (?S - dom (classes (snd (classGen env fuel s c a))))
            \<le> card (?S - dom (classes s))"
          by (intro card_mono) auto
        with s show "?I (snd (classGen env fuel s c a))" by simp
      next
        fix s c a e
        assume s: "?I s" and c: "c \<in> set env" and "fst (classGen env fuel s c a) = Inl e"
        with Suc.IH [OF c s, of a] show "e \<noteq> OutOfFuel" by auto
      qed
      have body: "\<forall>e. fst (classBody (classGen env fuel) env ?st0 c) = Inl e \<longrightarrow> e \<noteq> OutOfFuel"
        using classBody_inv [of ?I env "classGen env fuel" "\<lambda>e. e \<noteq> OutOfFuel" ?st0 c, OF cg _ _ _ _ st0]
        by simp
      obtain r st1 where r: "classBody (classGen env fuel) env ?st0 c = (r, st1)"
        by (cases "classBody (classGen env fuel) env ?st0 c")
      with body None False show ?thesis
        by (cases r) (auto simp: Let_def split: prod.splits)
    qed
  qed
qed

lemma card_unbuilt_le: "card (symName ` set env - dom m) \<le> length env"
proof -
  have "card (symName ` set env - dom m) \<le> card (symName ` set env)"
    by (intro card_mono) auto
  also have "\<dots> \<le> card (set env)" by (rule card_image_le) simp
  also have "\<dots> \<le> length env" by (rule card_length)
  finally show ?thesis .
qed

lemma classGen_fuel:
  assumes "length env + 1 < fuel"
  shows "fst (classGen env fuel st c a) \<noteq> Inl OutOfFuel"
proof -
  from assms obtain k where fuel: "fuel = Suc k" and k: "length env < k"
    by (cases fuel) auto
  let ?nm = "symName c"
  show ?thesis
  proof (cases "classes st ?nm = None \<and> \<not> blacklisted ''class'' ?nm")
    case False
    then show ?thesis by (auto simp: fuel Let_def split: option.splits)
  next
    case True
    let ?st0 = "setClass ?nm (newClassGen ?nm a) st"
    have cg: "\<And>s c a. True \<Longrightarrow> c \<in> set env \<Longrightarrow>
        True \<and> (\<forall>e. fst (classGen env k s c a) = Inl e \<longrightarrow> e \<noteq> OutOfFuel)"
    proof (intro conjI allI impI TrueI)
      fix s :: state and c a e
      assume c: "c \<in> set env" and e: "fst (classGen env k s c a) = Inl e"
      have "card (symName ` set env - dom (classes s)) < k"
        using card_unbuilt_le [of env "classes s"] k by simp
      from classGen_fuel_env [OF c this, of a] e show "e \<noteq> OutOfFuel" by auto
    qed
    have body: "\<forall>e. fst (classBody (classGen env k) env ?st0 c) = Inl e \<longrightarrow> e \<noteq> OutOfFuel"
      using classBody_inv [of "\<lambda>s. True" env "classGen env k" "\<lambda>e. e \<noteq> OutOfFuel" ?st0 c, OF cg]
      by simp
    obtain r st1 where r: "classBody (classGen env k) env ?st0 c = (r, st1)"
      by (cases "classBody (classGen env k) env ?st0 c")
    with body True show ?thesis
      by (cases r) (auto simp: fuel Let_def split: prod.splits)
  qed
qed

text \<open>No loop lets an \<open>UnusableType\<close> through.\<close>

lemma signatureLoop_not_unusable:
  "fst (signatureLoop tg mk nm k sigs st res) \<noteq> Inl (UnusableType t)"
proof (induction sigs arbitrary: st res k)
  case Nil
  then show ?case by simp
next
  case (Cons c sigs)
  obtain r st1 where r: "signatureGen tg st nm c = (r, st1)" by (cases "signatureGen tg st nm c")
  show ?case
  proof (cases r)
    case (Inr s)
    with r Cons.IH show ?thesis by simp
  next
    case (Inl e)
    with r Cons.IH show ?thesis by (cases e) auto
  qed
qed

lemma constructorLoop_not_unusable:
  "fst (constructorLoop tg cn ds st l) \<noteq> Inl (UnusableType t)"
proof (induction ds arbitrary: st l)
  case Nil
  then show ?case by simp
next
  case (Cons d ds)
  obtain r st1 where r: "paramsGen tg st d = (r, st1)" by (cases "paramsGen tg st d")
  show ?case
  proof (cases r)
    case (Inr s)
    with r Cons.IH show ?thesis by (simp add: Let_def)
  next
    case (Inl e)
    with r Cons.IH show ?thesis by (cases e) (auto simp: Let_def)
  qed
qed

lemma memberGen_not_unusable:
  "fst (memberGen tg cn inh st l m) \<noteq> Inl (UnusableType t)"
proof (cases m)
  case (Constructor ds)
  then show ?thesis by (simp add: memberGen_def constructorLoop_not_unusable)
next
  case (Property mn ty)
  then show ?thesis
    by (auto simp: memberGen_def split: prod.splits sum.splits error.splits)
next
  case (Method mn sigs)
  with signatureLoop_not_unusable [of tg "CouldNotTranslateMethod cn" mn 0 sigs st "l_methods l" t]
  show ?thesis
    by (auto simp: memberGen_def split: prod.splits sum.splits)
next
  case (OtherMember mn)
  then show ?thesis by (simp add: memberGen_def)
qed

lemma memberLoop_not_unusable:
  "fst (memberLoop tg cn inh ms st l) \<noteq> Inl (UnusableType t)"
proof (induction ms arbitrary: st l)
  case Nil
  then show ?case by simp
next
  case (Cons m ms)
  obtain r st1 where r: "memberGen tg cn inh st l m = (r, st1)" by (cases "memberGen tg cn inh st l m")
  with memberGen_not_unusable [of tg cn inh st l m t] Cons.IH show ?case
    by (cases r) auto
qed

lemma classGen_not_unusable:
  "fst (classGen env fuel st c a) \<noteq> Inl (UnusableType t)"
proof (induction fuel arbitrary: st c a)
  case 0
  then show ?case by simp
next
  case (Suc fuel)
  let ?st0 = "setClass (symName c) (newClassGen (symName c) a) st"
  have IH': "\<And>st c a s. classGen env fuel st c a = (Inl (UnusableType t), s) \<Longrightarrow> False"
    using Suc.IH by (metis fst_conv)
  have inh: "fst (inheritGen (classGen env fuel) env ?st0 c) \<noteq> Inl (UnusableType t)"
    by (auto dest: IH' simp: inheritGen_def split: option.splits prod.splits sum.splits TypeGen.splits)
  have ml: "\<And>tg cn i ms s l s'. memberLoop tg cn i ms s l = (Inl (UnusableType t), s') \<Longrightarrow> False"
    using memberLoop_not_unusable by (metis fst_conv)
  have "fst (classBody (classGen env fuel) env ?st0 c) \<noteq> Inl (UnusableType t)"
    using inh by (auto simp: classBody_def dest: ml split: prod.splits sum.splits)
  then have "\<And>s'. classBody (classGen env fuel) env ?st0 c = (Inl (UnusableType t), s') \<Longrightarrow> False"
    by (metis fst_conv)
  then show ?case
    by (auto simp: Let_def split: option.splits prod.splits sum.splits)
qed




lemma typeGen_preserves:
  "classes st n = Some g \<Longrightarrow> classes (snd (typeGen env fuel st ty)) n = Some g"
  unfolding typeGen_def
  using typeGenWith_inv [of "\<lambda>s. classes s n = Some g" env "classGen env fuel" "\<lambda>e. True" st ty]
    classGen_preserves [of _ n g env fuel]
  by simp

lemma symbolGen_preserves:
  assumes "classes st n = Some g"
  shows "classes (snd (symbolGen env fuel st s)) n = Some g"
proof -
  let ?I = "\<lambda>s. classes s n = Some g"
  have tg: "\<And>s ty. ?I s \<Longrightarrow> ?I (snd (typeGen env fuel s ty)) \<and>
      (\<forall>e. fst (typeGen env fuel s ty) = Inl e \<longrightarrow> True)"
    by (simp add: typeGen_preserves)
  have w: "\<And>w s. ?I s \<Longrightarrow> ?I (warn w s)" by simp
  show ?thesis
  proof (cases s)
    case (ClassSymbol c)
    with classGen_preserves [OF assms, of env fuel c False] show ?thesis
      by (auto simp: symbolGen_def split: prod.splits sum.splits)
  next
    case (InterfaceSymbol c)
    with classGen_preserves [OF assms, of env fuel c True] show ?thesis
      by (auto simp: symbolGen_def split: prod.splits sum.splits)
  next
    case (VariableSymbol nm ty)
    with tg [OF assms, of ty] assms show ?thesis
      by (auto simp: symbolGen_def variableGen_def split: prod.splits sum.splits error.splits)
  next
    case (FunctionSymbol nm sigs)
    with signatureLoop_inv [of ?I "typeGen env fuel" "\<lambda>e. True" st "CouldNotTranslateFunction nm"
        nm 0 sigs "[]", OF tg w assms] assms
    show ?thesis
      by (auto simp: symbolGen_def functionGen_def split: prod.splits sum.splits)
  next
    case (OtherSymbol nm ty)
    with assms show ?thesis by (simp add: symbolGen_def)
  qed
qed

lemma symbolLoop_preserves:
  "classes st n = Some g \<Longrightarrow> classes (snd (symbolLoop env fuel syms st gens)) n = Some g"
proof (induction syms arbitrary: st gens)
  case Nil
  then show ?case by simp
next
  case (Cons s syms)
  obtain r st1 where r: "symbolGen env fuel st s = (r, st1)" by (cases "symbolGen env fuel st s")
  with symbolGen_preserves [OF Cons.prems, of env fuel s] have st1: "classes st1 n = Some g"
    by simp
  then have st1w: "\<And>w. classes (warn w st1) n = Some g" by simp
  show ?case
  proof (cases r)
    case (Inr new)
    with r Cons.IH [OF st1] show ?thesis by simp
  next
    case (Inl e)
    with r st1 Cons.IH [OF st1w] show ?thesis by (cases e) auto
  qed
qed

lemma classGen_fresh:
  assumes "classes st (symName c) = None" and "\<not> blacklisted ''class'' (symName c)"
  shows "classGen env (Suc fuel) st c a =
    (case classBody (classGen env fuel) env
            (setClass (symName c) (newClassGen (symName c) a) st) c of
       (Inr (inh, l), st1) \<Rightarrow>
         (Inr (ClassRef (symName c)),
          setClass (symName c)
            (init (newClassGen (symName c) a) inh (l_fields l) (defaultConstructors inh l)
               (l_methods l)) st1)
     | (Inl e, st1) \<Rightarrow> (Inl e, setClass (symName c) (setInvalid (newClassGen (symName c) a)) st1))"
  using assms by (simp add: Let_def)

lemmas eval_vendor =
  classBody_def inheritGen_def memberGen_def typeGenWith_def typeGen_def lookupSym_def
  blacklisted_def blacklist_def setClass_def newClassGen_def init_def setInvalid_def
  defaultConstructors_def warn_def emptyState_def signatureGen_def functionGen_def
  variableGen_def symbolGen_def Let_def

lemma exX_fails:
  "classGen [exX, exY] (Suc (Suc (Suc 0))) emptyState exX False =
     (Inl (GenConstructFail ''Y is mutually recursive with its ancestor X in a confusing way''),
      State ((\<lambda>n. None)(''X'' \<mapsto> ClassGen ''X'' False None [] [] [] False True,
                         ''Y'' \<mapsto> ClassGen ''Y'' False None [] [] [] False True)) [])"
  apply (simp add: eval_vendor exX_def exY_def)
  apply (rule ext)
  apply simp
  done

subsection \<open>What a successful construction stores\<close>

lemma classGen_Inr:
  "classGen env fuel st c a = (Inr t, st') \<Longrightarrow> t = ClassRef (symName c)"
  by (cases fuel) (auto simp: Let_def split: option.splits if_splits prod.splits sum.splits)

lemma classGen_built:
  assumes fresh: "classes st (symName c) = None"
    and ok: "classGen env fuel st c a = (Inr t, st')"
  obtains k inh l sti st1 where "fuel = Suc k"
    and "inheritGen (classGen env k) env (setClass (symName c) (newClassGen (symName c) a) st) c
           = (Inr inh, sti)"
    and "memberLoop (typeGenWith (classGen env k) env) (symName c) inh (members c) sti
           (Locals [] [] [] 0) = (Inr l, st1)"
    and "st' = setClass (symName c)
            (init (newClassGen (symName c) a) inh (l_fields l) (defaultConstructors inh l)
               (l_methods l)) st1"
proof -
  from ok obtain k where k: "fuel = Suc k" by (cases fuel) auto
  from ok fresh k have nb: "\<not> blacklisted ''class'' (symName c)"
    by (auto simp: Let_def split: if_splits)
  let ?st0 = "setClass (symName c) (newClassGen (symName c) a) st"
  from ok [unfolded k classGen_fresh [OF fresh nb]]
  obtain inh l st1 where body: "classBody (classGen env k) env ?st0 c = (Inr (inh, l), st1)"
    and st': "st' = setClass (symName c)
            (init (newClassGen (symName c) a) inh (l_fields l) (defaultConstructors inh l)
               (l_methods l)) st1"
    by (auto split: prod.splits sum.splits)
  from body obtain sti where "inheritGen (classGen env k) env ?st0 c = (Inr inh, sti)"
    and "memberLoop (typeGenWith (classGen env k) env) (symName c) inh (members c) sti
           (Locals [] [] [] 0) = (Inr l, st1)"
    by (auto simp: classBody_def split: prod.splits sum.splits)
  with k st' that show thesis by blast
qed

lemma inheritGen_Inr:
  assumes "inheritGen (classGen env k) env st c = (Inr inh, st1)"
  shows "(heritage c = None \<and> inh = None \<and> st1 = st) \<or>
     (\<exists>pn p. heritage c = Some pn \<and> inh = Some p \<and> classes st1 pn = Some p \<and> inited p)"
proof (cases "heritage c")
  case None
  with assms show ?thesis by (simp add: inheritGen_def)
next
  case (Some pn)
  with assms obtain ps where ps: "lookupSym env pn = Some ps"
    by (auto simp: inheritGen_def split: option.splits)
  with assms Some obtain t where t: "classGen env k st ps False = (Inr t, st1)"
    by (auto simp: inheritGen_def split: option.splits prod.splits sum.splits TypeGen.splits
        if_splits)
  from classGen_Inr [OF t] lookupSym_Some [OF ps] have "t = ClassRef pn" by simp
  with assms Some ps t show ?thesis
    by (auto simp: inheritGen_def split: option.splits if_splits)
qed

lemma inheritGen_preserves:
  "classes st n = Some g \<Longrightarrow> classes (snd (inheritGen (classGen env k) env st c)) n = Some g"
  using inheritGen_inv [of "\<lambda>s. classes s n = Some g" env "classGen env k" "\<lambda>e. True" st c]
    classGen_preserves [of _ n g env k]
  by simp

lemma memberLoop_preserves:
  "classes st n = Some g \<Longrightarrow>
   classes (snd (memberLoop (typeGenWith (classGen env k) env) cn inh ms st l)) n = Some g"
proof -
  assume st: "classes st n = Some g"
  let ?I = "\<lambda>s. classes s n = Some g"
  have tg: "\<And>s ty. ?I s \<Longrightarrow> ?I (snd (typeGenWith (classGen env k) env s ty)) \<and>
      (\<forall>e. fst (typeGenWith (classGen env k) env s ty) = Inl e \<longrightarrow> True)"
    using typeGen_preserves [of _ n g env k] by (simp add: typeGen_def)
  from memberLoop_inv [of ?I "typeGenWith (classGen env k) env" "\<lambda>e. True" st cn inh ms l, OF tg _ st]
  show ?thesis by simp
qed

lemma exC_builds:
  "classGen [exP, exC] (Suc (Suc (Suc 0))) emptyState exC False = (Inr (ClassRef ''C''), exBuiltC)"
  apply (simp add: eval_vendor exP_def exC_def exBuiltC_def exCGen_def exPGen_def)
  apply (rule ext)
  apply simp
  done

text \<open>Every field the member loop collects is absent from the chain of the parent.\<close>

lemma exD_builds:
  "classGen [exP, exD] (Suc (Suc (Suc 0))) emptyState exD False = (Inr (ClassRef ''D''), exBuiltD)"
  apply (simp add: eval_vendor exP_def exD_def exBuiltD_def exDGen_def exPGen_def)
  apply (rule ext)
  apply simp
  done

lemma constructorLoop_fields:
  "constructorLoop tg cn ds st l = (Inr l', st') \<Longrightarrow> l_fields l' = l_fields l"
proof (induction ds arbitrary: st l)
  case Nil
  then show ?case by simp
next
  case (Cons d ds)
  obtain r st1 where r: "paramsGen tg st d = (r, st1)" by (cases "paramsGen tg st d")
  show ?case
  proof (cases r)
    case (Inr ps)
    with r Cons.prems Cons.IH [of st1 "Locals (l_fields l) (l_methods l)
        (l_constructors l @ [ConstructorGen ps None]) (Suc (l_foundConstructors l))"]
    show ?thesis by (simp add: Let_def)
  next
    case (Inl e)
    with r Cons.prems Cons.IH [of _ "Locals (l_fields l) (l_methods l)
        (l_constructors l) (Suc (l_foundConstructors l))"]
    show ?thesis by (cases e) (auto simp: Let_def)
  qed
qed

lemma memberLoop_fields:
  "\<forall>f \<in> set (l_fields l). \<not> chainHasField inh (name f) \<Longrightarrow>
   memberLoop tg cn inh ms st l = (Inr l', st') \<Longrightarrow>
   \<forall>f \<in> set (l_fields l'). \<not> chainHasField inh (name f)"
proof (induction ms arbitrary: st l)
  case Nil
  then show ?case by simp
next
  case (Cons m ms)
  from Cons.prems(2) obtain l1 st1 where m: "memberGen tg cn inh st l m = (Inr l1, st1)"
    and rest: "memberLoop tg cn inh ms st1 l1 = (Inr l', st')"
    by (auto split: prod.splits sum.splits)
  have "\<forall>f \<in> set (l_fields l1). \<not> chainHasField inh (name f)"
  proof (cases m)
    case (Constructor ds)
    with m constructorLoop_fields [of tg cn ds st l l1 st1] Cons.prems(1) show ?thesis
      by (simp add: memberGen_def)
  next
    case (Property mn ty)
    with m Cons.prems(1) show ?thesis
      by (auto simp: memberGen_def split: if_splits prod.splits sum.splits error.splits)
  next
    case (Method mn sigs)
    with m Cons.prems(1) show ?thesis
      by (auto simp: memberGen_def split: if_splits prod.splits sum.splits)
  next
    case (OtherMember mn)
    with m Cons.prems(1) show ?thesis by (simp add: memberGen_def)
  qed
  from Cons.IH [OF this rest] show ?case .
qed

subsection \<open>Properties of every entry of the table\<close>

text \<open>
  A property that holds of a new node, of a node marked invalid and of every node as
  \<open>init\<close> completes it holds of all entries of the table, whatever is built.
\<close>

lemma classGen_entries:
  assumes P0: "\<And>n a. P (newClassGen n a)" "\<And>n a. P (setInvalid (newClassGen n a))"
    and Pinit: "\<And>env k st0 c a inh l sti st1.
      inheritGen (classGen env k) env st0 c = (Inr inh, sti) \<Longrightarrow>
      memberLoop (typeGenWith (classGen env k) env) (symName c) inh (members c) sti
        (Locals [] [] [] 0) = (Inr l, st1) \<Longrightarrow>
      P (init (newClassGen (symName c) a) inh (l_fields l) (defaultConstructors inh l)
           (l_methods l))"
  shows "(\<forall>n g. classes st n = Some g \<longrightarrow> P g) \<Longrightarrow>
    (\<forall>n g. classes (snd (classGen env fuel st c a)) n = Some g \<longrightarrow> P g)"
proof (induction fuel arbitrary: st c a)
  case 0
  then show ?case by simp
next
  case (Suc fuel)
  let ?nm = "symName c"
  let ?I = "\<lambda>s. \<forall>n g. classes s n = Some g \<longrightarrow> P g"
  show ?case
  proof (cases "classes st ?nm = None \<and> \<not> blacklisted ''class'' ?nm")
    case False
    with Suc.prems show ?thesis by (auto simp: Let_def split: option.splits)
  next
    case True
    let ?st0 = "setClass ?nm (newClassGen ?nm a) st"
    from Suc.prems P0(1) have st0: "?I ?st0" by auto
    have cg: "\<And>s c a. ?I s \<Longrightarrow> c \<in> set env \<Longrightarrow>
        ?I (snd (classGen env fuel s c a)) \<and>
        (\<forall>e. fst (classGen env fuel s c a) = Inl e \<longrightarrow> True)"
      using Suc.IH by blast
    have body: "?I (snd (classBody (classGen env fuel) env ?st0 c))"
      using classBody_inv [of ?I env "classGen env fuel" "\<lambda>e. True" ?st0 c, OF cg _ _ _ _ st0]
      by simp
    obtain r st1 where r: "classBody (classGen env fuel) env ?st0 c = (r, st1)"
      by (cases "classBody (classGen env fuel) env ?st0 c")
    with body have st1: "?I st1" by simp
    show ?thesis
    proof (cases r)
      case (Inl e)
      with r True st1 P0(2) show ?thesis
        by (auto simp: classGen_fresh simp del: classGen.simps)
    next
      case (Inr il)
      obtain inh l where il: "il = (inh, l)" by (cases il)
      from r Inr il obtain sti where
        "inheritGen (classGen env fuel) env ?st0 c = (Inr inh, sti)"
        "memberLoop (typeGenWith (classGen env fuel) env) ?nm inh (members c) sti
          (Locals [] [] [] 0) = (Inr l, st1)"
        by (auto simp: classBody_def split: prod.splits sum.splits)
      from Pinit [OF this] r Inr il True st1 show ?thesis
        by (auto simp: classGen_fresh simp del: classGen.simps)
    qed
  qed
qed

lemma symbolLoop_entries:
  assumes cg: "\<And>st c a. (\<forall>n g. classes st n = Some g \<longrightarrow> P g) \<Longrightarrow>
      (\<forall>n g. classes (snd (classGen env fuel st c a)) n = Some g \<longrightarrow> P g)"
  shows "(\<forall>n g. classes st n = Some g \<longrightarrow> P g) \<Longrightarrow>
    (\<forall>n g. classes (snd (symbolLoop env fuel syms st gens)) n = Some g \<longrightarrow> P g)"
proof (induction syms arbitrary: st gens)
  case Nil
  then show ?case by simp
next
  case (Cons s syms)
  let ?I = "\<lambda>s. \<forall>n g. classes s n = Some g \<longrightarrow> P g"
  have cg': "\<And>s c a. ?I s \<Longrightarrow> c \<in> set env \<Longrightarrow>
        ?I (snd (classGen env fuel s c a)) \<and>
        (\<forall>e. fst (classGen env fuel s c a) = Inl e \<longrightarrow> True)"
    using cg by blast
  have tg: "\<And>s ty. ?I s \<Longrightarrow> ?I (snd (typeGen env fuel s ty)) \<and>
      (\<forall>e. fst (typeGen env fuel s ty) = Inl e \<longrightarrow> True)"
    unfolding typeGen_def
    using typeGenWith_inv [of ?I env "classGen env fuel" "\<lambda>e. True", OF cg'] by blast
  have w: "\<And>w s. ?I s \<Longrightarrow> ?I (warn w s)" by simp
  have "?I (snd (symbolGen env fuel st s))"
  proof (cases s)
    case (ClassSymbol c)
    with cg [OF Cons.prems, of c False] show ?thesis
      by (auto simp: symbolGen_def split: prod.splits sum.splits)
  next
    case (InterfaceSymbol c)
    with cg [OF Cons.prems, of c True] show ?thesis
      by (auto simp: symbolGen_def split: prod.splits sum.splits)
  next
    case (VariableSymbol nm ty)
    with tg [OF Cons.prems, of ty] Cons.prems show ?thesis
      by (auto simp: symbolGen_def variableGen_def split: prod.splits sum.splits error.splits)
  next
    case (FunctionSymbol nm sigs)
    with signatureLoop_inv [of ?I "typeGen env fuel" "\<lambda>e. True" st "CouldNotTranslateFunction nm"
        nm 0 sigs "[]", OF tg w Cons.prems] Cons.prems
    show ?thesis
      by (auto simp: symbolGen_def functionGen_def split: prod.splits sum.splits)
  next
    case (OtherSymbol nm ty)
    with Cons.prems show ?thesis by (simp add: symbolGen_def)
  qed
  moreover obtain r st1 where r: "symbolGen env fuel st s = (r, st1)"
    by (cases "symbolGen env fuel st s")
  ultimately have st1: "?I st1" by simp
  then have st1w: "\<And>w. ?I (warn w st1)" by simp
  show ?case
  proof (cases r)
    case (Inr new)
    with r Cons.IH [OF st1] show ?thesis by simp
  next
    case (Inl e)
    with r st1 Cons.IH [OF st1w] show ?thesis by (cases e) auto
  qed
qed

lemma no_redeclared_entries:
  assumes "\<forall>n g. classes st n = Some g \<longrightarrow>
      (\<forall>f \<in> set (fields g). \<not> chainHasField (inherit g) (name f))"
  shows "\<forall>n g. classes (snd (classGen env fuel st c a)) n = Some g \<longrightarrow>
      (\<forall>f \<in> set (fields g). \<not> chainHasField (inherit g) (name f))"
proof (rule classGen_entries [where P = "\<lambda>g. \<forall>f \<in> set (fields g). \<not> chainHasField (inherit g) (name f)",
      OF _ _ _ assms])
  fix env k st0 c a inh l sti st1
  assume "memberLoop (typeGenWith (classGen env k) env) (symName c) inh (members c) sti
        (Locals [] [] [] 0) = (Inr l, st1)"
  from memberLoop_fields [OF _ this]
  show "\<forall>f \<in> set (fields (init (newClassGen (symName c) a) inh (l_fields l)
      (defaultConstructors inh l) (l_methods l))).
      \<not> chainHasField (inherit (init (newClassGen (symName c) a) inh (l_fields l)
      (defaultConstructors inh l) (l_methods l))) (name f)"
    by (simp add: init_def)
qed (simp_all add: newClassGen_def setInvalid_def)

subsection \<open>The shape of what is built\<close>

lemma typeGenWith_Inr:
  "typeGenWith (classGen env k) env st ty = (Inr t, st') \<Longrightarrow> typeOf env ty = Some t"
  by (cases ty)
    (auto simp: typeGenWith_def typeOf_def split: option.splits
      dest!: classGen_Inr lookupSym_Some)

lemma classGen_unusable_False:
  "classGen env k st c a = (Inl (UnusableType u), st') \<Longrightarrow> False"
  using classGen_not_unusable [of env k st c a u] by simp

lemma typeGenWith_unusable:
  "typeGenWith (classGen env k) env st ty = (Inl (UnusableType u), st') \<Longrightarrow>
   typeOf env ty = None \<and> u = ty \<and> st' = st"
  by (cases ty)
    (auto simp: typeGenWith_def typeOf_def split: option.splits dest: classGen_unusable_False)

lemma paramsGen_Inr:
  "paramsGen (typeGenWith (classGen env k) env) st syms = (Inr ps, st') \<Longrightarrow>
   parametersOf env syms = Some ps"
proof (induction syms arbitrary: st ps)
  case Nil
  then show ?case by (simp add: parametersOf_def)
next
  case (Cons s syms)
  from Cons.prems obtain t st1 ps' where
    t: "typeGenWith (classGen env k) env st (paramType s) = (Inr t, st1)"
    and r: "paramsGen (typeGenWith (classGen env k) env) st1 syms = (Inr ps', st')"
    and ps: "ps = IdentifierGen (paramName s) t # ps'"
    by (auto split: prod.splits sum.splits)
  from typeGenWith_Inr [OF t] Cons.IH [OF r] ps show ?case
    by (simp add: parametersOf_def)
qed

lemma paramsGen_unusable:
  "paramsGen (typeGenWith (classGen env k) env) st syms = (Inl (UnusableType u), st') \<Longrightarrow>
   parametersOf env syms = None"
proof (induction syms arbitrary: st)
  case Nil
  then show ?case by simp
next
  case (Cons s syms)
  obtain r st1 where t: "typeGenWith (classGen env k) env st (paramType s) = (r, st1)"
    by (cases "typeGenWith (classGen env k) env st (paramType s)")
  show ?case
  proof (cases r)
    case (Inl e)
    with t Cons.prems have "typeGenWith (classGen env k) env st (paramType s) =
      (Inl (UnusableType u), st')" by simp
    from typeGenWith_unusable [OF this] show ?thesis by (simp add: parametersOf_def)
  next
    case (Inr ty)
    with t Cons.prems have "paramsGen (typeGenWith (classGen env k) env) st1 syms =
      (Inl (UnusableType u), st')"
      by (auto split: prod.splits sum.splits)
    from Cons.IH [OF this] show ?thesis
      by (auto simp: parametersOf_def split: option.splits)
  qed
qed

lemma signatureGen_Inr:
  "signatureGen (typeGenWith (classGen env k) env) st nm callSig = (Inr s, st') \<Longrightarrow>
   signatureOf env nm callSig = Some s"
  by (auto simp: signatureGen_def signatureOf_def split: prod.splits sum.splits
      dest!: paramsGen_Inr typeGenWith_Inr)

lemma signatureGen_unusable:
  "signatureGen (typeGenWith (classGen env k) env) st nm callSig = (Inl (UnusableType u), st') \<Longrightarrow>
   signatureOf env nm callSig = None"
  by (auto simp: signatureGen_def signatureOf_def split: prod.splits sum.splits option.splits
      dest!: paramsGen_Inr paramsGen_unusable typeGenWith_unusable)

lemma signatureLoop_Inr:
  "signatureLoop (typeGenWith (classGen env k) env) mk nm i sigs st res = (Inr r, st') \<Longrightarrow>
   r = res @ List.map_filter (signatureOf env nm) sigs"
proof (induction sigs arbitrary: i st res)
  case Nil
  then show ?case by simp
next
  case (Cons c sigs)
  obtain x st1 where x: "signatureGen (typeGenWith (classGen env k) env) st nm c = (x, st1)"
    by (cases "signatureGen (typeGenWith (classGen env k) env) st nm c")
  show ?case
  proof (cases x)
    case (Inr s)
    with x Cons.prems Cons.IH [of "Suc i" st1 "res @ [s]"] signatureGen_Inr [of env k st nm c s st1]
    show ?thesis by simp
  next
    case (Inl e)
    show ?thesis
    proof (cases e)
      case (UnusableType u)
      with x Inl Cons.prems Cons.IH [of "Suc i" _ res]
        signatureGen_unusable [of env k st nm c u st1]
      show ?thesis by simp
    qed (use x Inl Cons.prems in auto)
  qed
qed

lemma constructorLoop_Inr:
  "constructorLoop (typeGenWith (classGen env k) env) cn ds st l = (Inr l', st') \<Longrightarrow>
   l_fields l' = l_fields l \<and> l_methods l' = l_methods l \<and>
   l_constructors l' =
     l_constructors l @ map (\<lambda>ps. ConstructorGen ps None) (List.map_filter (parametersOf env) ds) \<and>
   l_foundConstructors l' = l_foundConstructors l + length ds"
proof (induction ds arbitrary: st l)
  case Nil
  then show ?case by simp
next
  case (Cons d ds)
  let ?tg = "typeGenWith (classGen env k) env"
  obtain r st1 where r: "paramsGen ?tg st d = (r, st1)" by (cases "paramsGen ?tg st d")
  show ?case
  proof (cases r)
    case (Inr ps)
    with r Cons.prems have "constructorLoop ?tg cn ds st1
        (Locals (l_fields l) (l_methods l) (l_constructors l @ [ConstructorGen ps None])
           (Suc (l_foundConstructors l))) = (Inr l', st')"
      by (simp add: Let_def)
    from Cons.IH [OF this] paramsGen_Inr [of env k st d ps st1] r Inr show ?thesis by simp
  next
    case (Inl e)
    show ?thesis
    proof (cases e)
      case (UnusableType u)
      with r Inl Cons.prems have "constructorLoop ?tg cn ds
          (warn (CouldNotTranslateConstructor (Suc (l_foundConstructors l)) cn u) st1)
          (Locals (l_fields l) (l_methods l) (l_constructors l) (Suc (l_foundConstructors l)))
          = (Inr l', st')"
        by (simp add: Let_def)
      from Cons.IH [OF this] paramsGen_unusable [of env k st d u st1] r Inl UnusableType
      show ?thesis by simp
    qed (use r Inl Cons.prems in \<open>auto simp: Let_def\<close>)
  qed
qed

lemma memberGen_Inr:
  assumes "memberGen (typeGenWith (classGen env k) env) cn inh st l m = (Inr l', st')"
  shows "l_fields l' = l_fields l @ memberFields env cn inh m \<and>
   l_methods l' = l_methods l @ memberMethods env cn m \<and>
   l_constructors l' =
     l_constructors l @ map (\<lambda>ps. ConstructorGen ps None) (memberConstructors env m) \<and>
   l_foundConstructors l' = l_foundConstructors l + length (memberDeclarations m)"
proof (cases m)
  case (Constructor ds)
  with assms constructorLoop_Inr [of env k cn ds st l l' st'] show ?thesis
    by (simp add: memberGen_def memberFields_def memberMethods_def memberConstructors_def
        memberDeclarations_def)
next
  case (Property mn ty)
  let ?tg = "typeGenWith (classGen env k) env"
  obtain r st1 where r: "?tg st ty = (r, st1)" by (cases "?tg st ty")
  show ?thesis
  proof (cases "blacklisted ''field'' (cn @ ''.'' @ mn) \<or> chainHasField inh mn")
    case True
    with assms Property show ?thesis
      by (auto simp: memberGen_def memberFields_def memberMethods_def memberConstructors_def
          memberDeclarations_def split: if_splits)
  next
    case False
    show ?thesis
    proof (cases r)
      case (Inr t)
      with r assms Property False typeGenWith_Inr [of env k st ty t st1] show ?thesis
        by (auto simp: memberGen_def memberFields_def memberMethods_def memberConstructors_def
            memberDeclarations_def)
    next
      case (Inl e)
      show ?thesis
      proof (cases e)
        case (UnusableType u)
        with r Inl assms Property False typeGenWith_unusable [of env k st ty u st1] show ?thesis
          by (auto simp: memberGen_def memberFields_def memberMethods_def memberConstructors_def
              memberDeclarations_def)
      qed (use r Inl assms Property False in \<open>auto simp: memberGen_def\<close>)
    qed
  qed
next
  case (Method mn sigs)
  show ?thesis
  proof (cases "blacklisted ''field'' (cn @ ''.'' @ mn)")
    case True
    with assms Method show ?thesis
      by (auto simp: memberGen_def memberFields_def memberMethods_def memberConstructors_def
          memberDeclarations_def)
  next
    case False
    with assms Method obtain ms where
      ms: "signatureLoop (typeGenWith (classGen env k) env) (CouldNotTranslateMethod cn) mn 0 sigs
             st (l_methods l) = (Inr ms, st')"
      and l': "l' = Locals (l_fields l) ms (l_constructors l) (l_foundConstructors l)"
      by (auto simp: memberGen_def split: prod.splits sum.splits)
    from signatureLoop_Inr [OF ms] l' Method False show ?thesis
      by (simp add: memberFields_def memberMethods_def memberConstructors_def
          memberDeclarations_def)
  qed
next
  case (OtherMember mn)
  with assms show ?thesis
    by (auto simp: memberGen_def memberFields_def memberMethods_def memberConstructors_def
        memberDeclarations_def)
qed

lemma memberLoop_Inr:
  "memberLoop (typeGenWith (classGen env k) env) cn inh ms st l = (Inr l', st') \<Longrightarrow>
   l_fields l' = l_fields l @ concat (map (memberFields env cn inh) ms) \<and>
   l_methods l' = l_methods l @ concat (map (memberMethods env cn) ms) \<and>
   l_constructors l' =
     l_constructors l @
     map (\<lambda>ps. ConstructorGen ps None) (concat (map (memberConstructors env) ms)) \<and>
   l_foundConstructors l' = l_foundConstructors l + length (concat (map memberDeclarations ms))"
proof (induction ms arbitrary: st l)
  case Nil
  then show ?case by simp
next
  case (Cons m ms)
  from Cons.prems obtain l1 st1 where
    m: "memberGen (typeGenWith (classGen env k) env) cn inh st l m = (Inr l1, st1)"
    and rest: "memberLoop (typeGenWith (classGen env k) env) cn inh ms st1 l1 = (Inr l', st')"
    by (auto split: prod.splits sum.splits)
  from memberGen_Inr [OF m] Cons.IH [OF rest] show ?case by simp
qed

lemma classGen_shape:
  assumes fresh: "classes st (symName c) = None"
    and ok: "classGen env fuel st c a = (Inr t, st')"
  shows "\<exists>g. classes st' (symName c) = Some g \<and> inited g \<and> className g = symName c \<and>
     (case heritage c of
        None \<Rightarrow> inherit g = None
      | Some pn \<Rightarrow> (\<exists>p. inherit g = Some p \<and> classes st' pn = Some p \<and> inited p)) \<and>
     fields g = concat (map (memberFields env (symName c) (inherit g)) (members c)) \<and>
     methods g =
       map (\<lambda>m. SignatureGen (sigName m) (sigParams m) (returnType m) (Some (symName c)))
         (concat (map (memberMethods env (symName c)) (members c))) \<and>
     constructors g =
       (if concat (map memberDeclarations (members c)) = []
        then (case inherit g of
                Some p \<Rightarrow>
                  map (\<lambda>k. ConstructorGen (ctorParams k) (Some (symName c))) (constructors p)
              | None \<Rightarrow> [ConstructorGen [] (Some (symName c))])
        else map (\<lambda>ps. ConstructorGen ps (Some (symName c)))
               (concat (map (memberConstructors env) (members c))))"
proof -
  let ?nm = "symName c"
  let ?result = "newClassGen ?nm a"
  let ?st0 = "setClass ?nm ?result st"
  from fresh ok obtain k inh l sti st1 where fuel: "fuel = Suc k"
    and ih: "inheritGen (classGen env k) env ?st0 c = (Inr inh, sti)"
    and ml: "memberLoop (typeGenWith (classGen env k) env) ?nm inh (members c) sti
           (Locals [] [] [] 0) = (Inr l, st1)"
    and st': "st' = setClass ?nm
            (init ?result inh (l_fields l) (defaultConstructors inh l) (l_methods l)) st1"
    by (rule classGen_built)
  let ?g = "init ?result inh (l_fields l) (defaultConstructors inh l) (l_methods l)"
  from memberLoop_Inr [OF ml]
  have l: "l_fields l = concat (map (memberFields env ?nm inh) (members c))"
    "l_methods l = concat (map (memberMethods env ?nm) (members c))"
    "l_constructors l =
       map (\<lambda>ps. ConstructorGen ps None) (concat (map (memberConstructors env) (members c)))"
    "l_foundConstructors l = length (concat (map memberDeclarations (members c)))"
    by simp_all
  have g: "classes st' ?nm = Some ?g" "inited ?g" "inherit ?g = inh" "className ?g = ?nm"
    "fields ?g = concat (map (memberFields env ?nm inh) (members c))"
    "methods ?g = map (\<lambda>m. SignatureGen (sigName m) (sigParams m) (returnType m) (Some ?nm))
         (concat (map (memberMethods env ?nm) (members c)))"
    by (simp_all add: st' init_def l newClassGen_def)
  have cs: "constructors ?g =
       (if concat (map memberDeclarations (members c)) = []
        then (case inh of
                Some p \<Rightarrow> map (\<lambda>k. ConstructorGen (ctorParams k) (Some ?nm)) (constructors p)
              | None \<Rightarrow> [ConstructorGen [] (Some ?nm)])
        else map (\<lambda>ps. ConstructorGen ps (Some ?nm))
               (concat (map (memberConstructors env) (members c))))"
  proof (cases "concat (map memberDeclarations (members c)) = []")
    case True
    then have "concat (map (memberConstructors env) (members c)) = []"
      by (auto simp: memberConstructors_def)
    with l(3) have l3: "l_constructors l = []" by simp
    from True l(4) have l4: "l_foundConstructors l = 0" by simp
    have "constructors ?g =
        (case inh of
           Some p \<Rightarrow> map (\<lambda>k. ConstructorGen (ctorParams k) (Some ?nm)) (constructors p)
         | None \<Rightarrow> [ConstructorGen [] (Some ?nm)])"
      by (simp add: init_def defaultConstructors_def l3 l4 newClassGen_def o_def
          split: option.splits)
    then show ?thesis unfolding if_P [OF True] .
  next
    case False
    with l(4) have l4: "l_foundConstructors l \<noteq> 0" by simp
    have "constructors ?g =
        map (\<lambda>ps. ConstructorGen ps (Some ?nm))
          (concat (map (memberConstructors env) (members c)))"
      by (simp add: init_def defaultConstructors_def l(3) l4 newClassGen_def o_def)
    then show ?thesis unfolding if_not_P [OF False] .
  qed
  have inh: "case heritage c of
        None \<Rightarrow> inh = None
      | Some pn \<Rightarrow> (\<exists>p. inh = Some p \<and> classes st' pn = Some p \<and> inited p)"
    using inheritGen_Inr [OF ih]
  proof
    assume "heritage c = None \<and> inh = None \<and> sti = ?st0"
    then show ?thesis by simp
  next
    assume "\<exists>pn p. heritage c = Some pn \<and> inh = Some p \<and> classes sti pn = Some p \<and> inited p"
    then obtain pn p where p: "heritage c = Some pn" "inh = Some p" "classes sti pn = Some p"
      "inited p" by blast
    have "classes ?st0 ?nm = Some ?result" by simp
    from inheritGen_preserves [OF this, of env k c] ih
    have "classes sti ?nm = Some ?result" by simp
    with p have "pn \<noteq> ?nm" by (auto simp: newClassGen_def)
    moreover from memberLoop_preserves [OF p(3), of env k ?nm inh "members c" "Locals [] [] [] 0"] ml
    have "classes st1 pn = Some p" by simp
    ultimately have "classes st' pn = Some p" by (simp add: st')
    with p show ?thesis by simp
  qed
  show ?thesis
    apply (rule exI [of _ ?g])
    apply (rule conjI, rule g(1))
    apply (rule conjI, rule g(2))
    apply (rule conjI, rule g(4))
    apply (simp only: g(3))
    apply (rule conjI, rule inh)
    apply (rule conjI, rule g(5))
    apply (rule conjI, rule g(6))
    apply (rule cs)
    done
qed

subsection \<open>Members whose types call for no class\<close>











lemma concat_map_filter_None:
  "\<forall>d \<in> set (concat (map memberDeclarations ms)). parametersOf env d = None \<Longrightarrow>
   concat (map (memberConstructors env) ms) = []"
  by (induction ms) (auto simp: memberConstructors_def List.map_filter_def)


section \<open>Properties of the dependency graph and of the emission order\<close>

subsection \<open>The graph built from the generators\<close>

lemma addNode_simps [simp]:
  "set (nodeIds (addNode v g)) = insert v (set (nodeIds g))"
  "node (addNode v g) = node g"
  "edges (addNode v g) = edges g"
  by (auto simp: addNode_def)

lemma setNode_simps [simp]:
  "set (nodeIds (setNode v l g)) = insert v (set (nodeIds g))"
  "node (setNode v l g) = (node g)(v \<mapsto> l)"
  "edges (setNode v l g) = edges g"
  by (auto simp: setNode_def Let_def)

lemma setEdge_simps [simp]:
  "set (nodeIds (setEdge v w g)) = insert v (insert w (set (nodeIds g)))"
  "node (setEdge v w g) = node g"
  "set (edges (setEdge v w g)) = insert (v, w) (set (edges g))"
  by (auto simp: setEdge_def Let_def)

lemma fold_setEdge:
  "set (nodeIds (fold (setEdge key) deps g)) =
     set (nodeIds g) \<union> (if deps = [] then {} else {key}) \<union> set deps \<and>
   node (fold (setEdge key) deps g) = node g \<and>
   set (edges (fold (setEdge key) deps g)) = set (edges g) \<union> {key} \<times> set deps"
  by (induction deps arbitrary: g) auto

lemma addGenerator_simps [simp]:
  "set (nodeIds (addGenerator gen g)) =
     insert (dependKey gen) (set (nodeIds g)) \<union> set (depends gen)"
  "node (addGenerator gen g) = (node g)(dependKey gen \<mapsto> gen)"
  "set (edges (addGenerator gen g)) = set (edges g) \<union> {dependKey gen} \<times> set (depends gen)"
  using fold_setEdge [of "dependKey gen" "depends gen" "setNode (dependKey gen) gen g"]
  by (auto simp: addGenerator_def Let_def)

lemma fold_addGenerator:
  "set (nodeIds (fold addGenerator gens g)) =
     set (nodeIds g) \<union> dependKey ` set gens \<union> (\<Union>x \<in> set gens. set (depends x)) \<and>
   set (edges (fold addGenerator gens g)) =
     set (edges g) \<union> (\<Union>x \<in> set gens. {dependKey x} \<times> set (depends x)) \<and>
   (\<forall>k x. node (fold addGenerator gens g) k = Some x \<longrightarrow>
      node g k = Some x \<or> (x \<in> set gens \<and> dependKey x = k)) \<and>
   (\<forall>x \<in> set gens. node (fold addGenerator gens g) (dependKey x) \<noteq> None) \<and>
   (\<forall>k. node g k \<noteq> None \<longrightarrow> node (fold addGenerator gens g) k \<noteq> None)"
proof (induction gens arbitrary: g)
  case Nil
  then show ?case by simp
next
  case (Cons x gens)
  from Cons.IH [of "addGenerator x g"] show ?case
    by (auto split: if_splits)
qed

lemma dependencies_nodeIds:
  "set (nodeIds (dependencies gens)) =
     dependKey ` set gens \<union> (\<Union>x \<in> set gens. set (depends x))"
  using fold_addGenerator [of gens emptyGraph] by (simp add: dependencies_def emptyGraph_def)

lemma dependencies_edges:
  "(v, w) \<in> set (edges (dependencies gens)) \<longleftrightarrow>
     (\<exists>x \<in> set gens. dependKey x = v \<and> w \<in> set (depends x))"
  using fold_addGenerator [of gens emptyGraph] by (auto simp: dependencies_def emptyGraph_def)

lemma dependencies_node:
  "node (dependencies gens) k = Some x \<Longrightarrow> x \<in> set gens \<and> dependKey x = k"
  using fold_addGenerator [of gens emptyGraph] by (auto simp: dependencies_def emptyGraph_def)

lemma dependencies_labelled:
  "x \<in> set gens \<Longrightarrow> \<exists>y. node (dependencies gens) (dependKey x) = Some y"
  using fold_addGenerator [of gens emptyGraph] by (auto simp: dependencies_def)

subsection \<open>What the last loop emits\<close>

lemma those_map_Some:
  "\<forall>x \<in> set xs. f x \<noteq> None \<Longrightarrow> those (map f xs) = Some (map (\<lambda>x. the (f x)) xs)"
  by (induction xs) auto

lemma sortedLoop_eq:
  assumes "\<forall>scc \<in> set sccs. scc \<noteq> [] \<and>
      (1 < length scc \<longrightarrow> (\<forall>v \<in> set scc. \<exists>x. node g v = Some x \<and> dependKey x = v))"
  shows "sortedLoop (groupedGenerators g sccs) acc ws =
     Inr (acc @ List.map_filter (\<lambda>scc. node g (hd scc)) (filter (\<lambda>scc. length scc = 1) sccs),
          ws @ map MutuallyRecursive (filter (\<lambda>scc. 1 < length scc) sccs))"
  using assms
proof (induction sccs arbitrary: acc ws)
  case Nil
  then show ?case by (simp add: groupedGenerators_def)
next
  case (Cons scc sccs)
  from Cons.prems have rest: "\<forall>scc \<in> set sccs. scc \<noteq> [] \<and>
      (1 < length scc \<longrightarrow> (\<forall>v \<in> set scc. \<exists>x. node g v = Some x \<and> dependKey x = v))"
    by simp
  note IH = Cons.IH [OF rest, unfolded groupedGenerators_def]
  show ?case
  proof (cases "1 < length scc")
    case True
    with Cons.prems have lab: "\<forall>v \<in> set scc. \<exists>x. node g v = Some x \<and> dependKey x = v"
      by simp
    then have "those (map (node g) scc) = Some (map (\<lambda>v. the (node g v)) scc)"
      by (intro those_map_Some) auto
    moreover from lab have "map dependKey (map (\<lambda>v. the (node g v)) scc) = scc"
      by (induction scc) auto
    ultimately show ?thesis using True IH
      by (simp add: groupedGenerators_def)
  next
    case False
    with Cons.prems obtain v where v: "scc = [v]"
      by (cases scc) auto
    then show ?thesis using IH
      by (cases "node g v") (simp_all add: groupedGenerators_def)
  qed
qed

lemma map_filter_split:
  "List.map_filter h zs = xs @ y # ys \<Longrightarrow>
   \<exists>pre z post. zs = pre @ z # post \<and> h z = Some y \<and>
     xs = List.map_filter h pre \<and> ys = List.map_filter h post"
proof (induction zs arbitrary: xs)
  case Nil
  then show ?case by simp
next
  case (Cons z zs)
  show ?case
  proof (cases "h z")
    case None
    with Cons.prems have "List.map_filter h zs = xs @ y # ys"
      by simp
    from Cons.IH [OF this] obtain pre z' post where
      "zs = pre @ z' # post" "h z' = Some y" "xs = List.map_filter h pre"
      "ys = List.map_filter h post" by blast
    with None have "z # zs = (z # pre) @ z' # post \<and> h z' = Some y \<and>
      xs = List.map_filter h (z # pre) \<and> ys = List.map_filter h post"
      by simp
    then show ?thesis by blast
  next
    case (Some u)
    with Cons.prems have eq: "u # List.map_filter h zs = xs @ y # ys"
      by simp
    show ?thesis
    proof (cases xs)
      case Nil
      with eq Some have "z # zs = [] @ z # zs \<and> h z = Some y \<and>
        xs = List.map_filter h [] \<and> ys = List.map_filter h zs"
        by simp
      then show ?thesis by blast
    next
      case (Cons x xs')
      with eq have "List.map_filter h zs = xs' @ y # ys" and x: "x = u" by simp_all
      from Cons.IH [OF this(1)] obtain pre z' post where
        "zs = pre @ z' # post" "h z' = Some y" "xs' = List.map_filter h pre"
        "ys = List.map_filter h post" by blast
      with Some Cons x have "z # zs = (z # pre) @ z' # post \<and> h z' = Some y \<and>
        xs = List.map_filter h (z # pre) \<and> ys = List.map_filter h post"
        by simp
      then show ?thesis by blast
    qed
  qed
qed

lemma map_filter_filter:
  "List.map_filter f (filter P zs) = List.map_filter (\<lambda>z. if P z then f z else None) zs"
  by (induction zs) (auto split: option.splits)

lemma in_map_filter:
  "y \<in> set (List.map_filter h zs) \<longleftrightarrow> (\<exists>z \<in> set zs. h z = Some y)"
  by (induction zs) (auto split: option.splits)

text \<open>Consequences of the contract of the component analysis.\<close>

lemma tarjanResult_labels:
  assumes t: "tarjanResult (dependencies gens) sccs"
    and scc: "scc \<in> set sccs" and len: "1 < length scc" and v: "v \<in> set scc"
  shows "\<exists>x. node (dependencies gens) v = Some x \<and> dependKey x = v"
proof -
  let ?E = "set (edges (dependencies gens))"
  from t scc have "distinct scc"
    by (auto simp: tarjanResult_def distinct_concat_iff)
  with len v obtain w where w: "w \<in> set scc" "w \<noteq> v"
    by (cases scc rule: list.exhaust, simp, rename_tac a as, case_tac as, auto)
  with t scc v have "(v, w) \<in> ?E\<^sup>*" by (auto simp: tarjanResult_def)
  with w(2) obtain u where "(v, u) \<in> ?E" by (auto elim: converse_rtranclE)
  then obtain x where "x \<in> set gens" "dependKey x = v"
    by (auto simp: dependencies_edges)
  from dependencies_labelled [OF this(1)] this(2) obtain y where
    "node (dependencies gens) v = Some y" by auto
  with dependencies_node [OF this] show ?thesis by simp
qed

lemma sortedGenerators_eq:
  assumes t: "tarjanResult (dependencies gens) sccs"
  shows "sortedGenerators gens sccs =
     Inr (List.map_filter (\<lambda>scc. node (dependencies gens) (hd scc))
            (filter (\<lambda>scc. length scc = 1) sccs),
          map MutuallyRecursive (filter (\<lambda>scc. 1 < length scc) sccs))"
proof -
  have "\<forall>scc \<in> set sccs. scc \<noteq> [] \<and>
      (1 < length scc \<longrightarrow>
         (\<forall>v \<in> set scc. \<exists>x. node (dependencies gens) v = Some x \<and> dependKey x = v))"
    using t tarjanResult_labels [OF t] by (auto simp: tarjanResult_def)
  from sortedLoop_eq [OF this, of "[]" "[]"] show ?thesis
    by (simp add: sortedGenerators_def)
qed

lemma concat_take_index:
  "x \<in> set (concat (take n xss)) \<Longrightarrow> \<exists>j < n. j < length xss \<and> x \<in> set (xss ! j)"
  by (auto simp: in_set_conv_nth) (metis length_take min_less_iff_conj nth_take)

lemma distinct_concat_index:
  assumes d: "distinct (concat xss)" and i: "i < length xss" and j: "j < length xss"
    and xi: "x \<in> set (xss ! i)" and xj: "x \<in> set (xss ! j)"
  shows "i = j"
proof -
  have aux: "False" if ij: "i < j" and i: "i < length xss" and j: "j < length xss"
    and xi: "x \<in> set (xss ! i)" and xj: "x \<in> set (xss ! j)" for i j
  proof -
    have "concat xss = concat (take j xss) @ concat (drop j xss)"
      by (metis append_take_drop_id concat_append)
    with d have dis: "set (concat (take j xss)) \<inter> set (concat (drop j xss)) = {}"
      by (metis distinct_append)
    from ij i have "xss ! i \<in> set (take j xss)"
      by (metis length_take min_less_iff_conj nth_mem nth_take)
    with xi have "x \<in> set (concat (take j xss))" by auto
    moreover from j have "xss ! j \<in> set (drop j xss)"
      by (metis Cons_nth_drop_Suc list.set_intros(1))
    with xj have "x \<in> set (concat (drop j xss))" by auto
    ultimately show False using dis by blast
  qed
  show ?thesis
    using aux [of i j] aux [of j i] i j xi xj by (cases i j rule: linorder_cases) auto
qed

lemma distinct_keys_map_filter:
  assumes h: "\<And>z y. h z = Some y \<Longrightarrow> dependKey y \<in> set z"
  shows "distinct (concat zs) \<Longrightarrow> distinct (map dependKey (List.map_filter h zs))"
proof (induction zs)
  case Nil
  then show ?case by simp
next
  case (Cons z zs)
  then have IH: "distinct (map dependKey (List.map_filter h zs))"
    and dis: "set z \<inter> set (concat zs) = {}" by auto
  show ?case
  proof (cases "h z")
    case None
    with IH show ?thesis by simp
  next
    case (Some y)
    have "dependKey y \<notin> dependKey ` set (List.map_filter h zs)"
    proof
      assume "dependKey y \<in> dependKey ` set (List.map_filter h zs)"
      then obtain y' z' where "z' \<in> set zs" "h z' = Some y'" "dependKey y' = dependKey y"
        by (auto simp: in_map_filter)
      with h [of z' y'] h [OF Some] dis show False by auto
    qed
    with Some IH show ?thesis by simp
  qed
qed

lemmas eval_graph =
  dependencies_def addGenerator_def setNode_def setEdge_def addNode_def emptyGraph_def
  classDepends_def identifierDepends_def signatureDepends_def constructorDepends_def
  concatAll_def arrayFilter_def sortedGenerators_def groupedGenerators_def Let_def

lemma exGens_graph:
  "nodeIds (dependencies exGens) = [''C'', ''P'', ''v''] \<and>
   edges (dependencies exGens) = [(''C'', ''P''), (''v'', ''C'')]"
  by (simp add: eval_graph exGens_def exCGen_def exPGen_def)

lemma exGens_tarjan: "tarjanResult (dependencies exGens) [[''P''], [''C''], [''v'']]"
  by (auto simp: tarjanResult_def exGens_graph All_less_Suc numeral_3_eq_3)

lemma tarjanResult_same:
  assumes t: "tarjanResult g sccs"
    and a: "a \<in> set sccs" and b: "b \<in> set sccs" and xa: "x \<in> set a" and xb: "x \<in> set b"
  shows "a = b"
  using assms by (auto simp: tarjanResult_def distinct_concat_iff)

lemma tarjanResult_distinct:
  assumes t: "tarjanResult g sccs"
  shows "distinct sccs"
proof -
  from t have "distinct (removeAll [] sccs)" and "[] \<notin> set sccs"
    by (auto simp: tarjanResult_def distinct_concat_iff)
  then show ?thesis by simp
qed

lemma tarjanResult_cycle:
  assumes t: "tarjanResult g sccs"
    and vw: "(v, w) \<in> set (edges g)" and wv: "(w, v) \<in> set (edges g)"
    and v: "v \<in> set (nodeIds g)"
  shows "\<exists>scc \<in> set sccs. v \<in> set scc \<and> w \<in> set scc"
proof -
  from t have d: "distinct (concat sccs)" by (simp add: tarjanResult_def)
  from t v have "v \<in> set (concat sccs)" by (simp add: tarjanResult_def)
  then obtain scc where "scc \<in> set sccs" "v \<in> set scc" by auto
  then obtain i where i: "i < length sccs" "v \<in> set (sccs ! i)"
    by (metis in_set_conv_nth)
  with t vw have "w \<in> set (concat (take (Suc i) sccs))"
    by (auto simp: tarjanResult_def)
  from concat_take_index [OF this] obtain j where
    j: "j < Suc i" "j < length sccs" "w \<in> set (sccs ! j)" by blast
  with t wv have "v \<in> set (concat (take (Suc j) sccs))"
    by (auto simp: tarjanResult_def)
  from concat_take_index [OF this] obtain m where
    m: "m < Suc j" "m < length sccs" "v \<in> set (sccs ! m)" by blast
  from distinct_concat_index [OF d m(2) i(1) m(3) i(2)] have "m = i" .
  with m(1) j(1) have "j = i" by simp
  with i j show ?thesis by (auto intro!: bexI [of _ "sccs ! i"])
qed

lemma exAB_tarjan:
  "tarjanResult (dependencies [ClassGenerator exAGen, ClassGenerator exBGen]) [[''B'', ''A'']]"
  by (auto simp: tarjanResult_def eval_graph exAGen_def exBGen_def intro!: r_into_rtrancl)

lemma exSelf_tarjan: "tarjanResult (dependencies [ClassGenerator exSelfGen]) [[''Foo'']]"
  by (simp add: tarjanResult_def eval_graph exSelfGen_def)

lemma exSelf_only_cycle:
  "(''Foo'', v) \<in> (set (edges (dependencies [ClassGenerator exSelfGen])))\<^sup>* \<Longrightarrow> v = ''Foo''"
  by (induction rule: rtrancl_induct) (auto simp: eval_graph exSelfGen_def)

section \<open>Unrepresentable types are caught where they arise\<close>



section \<open>A class that failed stays unbuildable\<close>

text \<open>
  C8. When \<open>classGen\<close> creates the node of a class and then fails, whatever the failure,
  the node is left in the table marked invalid. An invalid entry is never changed again: not
  by \<open>classGen\<close>, not by \<open>typeGen\<close>, not by the main loop over any symbols. And while the
  entry is invalid, \<open>classGen\<close> on that name fails at once with "Tried to reuse unbuildable
  type", leaving the state as it is.
\<close>

theorem failed_class_stays_unbuildable:
  "(classes st (symName c) = None \<and> \<not> blacklisted ''class'' (symName c) \<and>
    classGen env (Suc fuel) st c a = (Inl e, st1) \<longrightarrow>
      (\<exists>g. classes st1 (symName c) = Some g \<and> invalid g)) \<and>
   (classes st n = Some g \<and> invalid g \<longrightarrow>
      classes (snd (classGen env fuel st c a)) n = Some g \<and>
      classes (snd (typeGen env fuel st ty)) n = Some g \<and>
      classes (snd (symbolLoop env fuel symbols st generators)) n = Some g \<and>
      (symName c = n \<longrightarrow>
         classGen env (Suc fuel) st c a =
           (Inl (GenConstructFail ''Tried to reuse unbuildable type''), st)))"
proof (intro conjI impI)
  assume h: "classes st (symName c) = None \<and> \<not> blacklisted ''class'' (symName c) \<and>
    classGen env (Suc fuel) st c a = (Inl e, st1)"
  then have "classGen env (Suc fuel) st c a =
    (case classBody (classGen env fuel) env
            (setClass (symName c) (newClassGen (symName c) a) st) c of
       (Inr (inh, l), st1) \<Rightarrow>
         (Inr (ClassRef (symName c)),
          setClass (symName c)
            (init (newClassGen (symName c) a) inh (l_fields l) (defaultConstructors inh l)
               (l_methods l)) st1)
     | (Inl e, st1) \<Rightarrow> (Inl e, setClass (symName c) (setInvalid (newClassGen (symName c) a)) st1))"
    by (intro classGen_fresh) auto
  with h show "\<exists>g. classes st1 (symName c) = Some g \<and> invalid g"
    by (auto simp del: classGen.simps simp: setInvalid_def split: prod.splits sum.splits)
next
  assume h: "classes st n = Some g \<and> invalid g"
  then show "classes (snd (classGen env fuel st c a)) n = Some g"
    by (simp add: classGen_preserves)
  from h show "classes (snd (typeGen env fuel st ty)) n = Some g"
    by (simp add: typeGen_preserves)
  from h show "classes (snd (symbolLoop env fuel symbols st generators)) n = Some g"
    by (simp add: symbolLoop_preserves)
  assume "symName c = n"
  with h show "classGen env (Suc fuel) st c a =
           (Inl (GenConstructFail ''Tried to reuse unbuildable type''), st)"
    by (simp add: Let_def)
qed

theorem failed_class_stays_unbuildable_witness:
  "classes emptyState (symName exX) = None \<and> \<not> blacklisted ''class'' (symName exX) \<and>
   classGen [exX, exY] (Suc 2) emptyState exX False =
     (Inl (GenConstructFail ''Y is mutually recursive with its ancestor X in a confusing way''),
      exFailed) \<and>
   (\<exists>g. classes exFailed (symName exX) = Some g \<and> invalid g) \<and>
   classGen [exX, exY] (Suc 2) exFailed exX False =
     (Inl (GenConstructFail ''Tried to reuse unbuildable type''), exFailed)"
proof -
  have 1: "classes emptyState (symName exX) = None \<and> \<not> blacklisted ''class'' (symName exX)"
    by (simp add: emptyState_def exX_def blacklisted_def blacklist_def)
  have 2: "classGen [exX, exY] (Suc 2) emptyState exX False =
     (Inl (GenConstructFail ''Y is mutually recursive with its ancestor X in a confusing way''),
      exFailed)"
    using exX_fails by (simp add: exFailed_def numeral_2_eq_2)
  from failed_class_stays_unbuildable [where st = emptyState and c = exX and env = "[exX, exY]"
      and fuel = 2 and a = False and ?st1.0 = exFailed] 1 2
  have 3: "\<exists>g. classes exFailed (symName exX) = Some g \<and> invalid g" by blast
  then obtain g where g: "classes exFailed (symName exX) = Some g" "invalid g" by blast
  from failed_class_stays_unbuildable [where st = exFailed and c = exX and n = "symName exX"
      and g = g and env = "[exX, exY]" and fuel = 2 and a = False] g
  have 4: "classGen [exX, exY] (Suc 2) exFailed exX False =
     (Inl (GenConstructFail ''Tried to reuse unbuildable type''), exFailed)" by blast
  from 1 2 3 4 show ?thesis by blast
qed

section \<open>References to a class under construction\<close>

text \<open>
  C7 (amended). When the declared parent of a class is still under construction (it is the
  class itself, or its entry is neither inited nor invalid), building the class fails with
  the error "... is mutually recursive with its ancestor ... in a confusing way", and the
  class is marked invalid. A class under construction that is referenced as the type of a
  member or parameter is returned as it is, without failure. And \<open>classGen\<close> always
  returns: with a recursion bound above the number of class symbols plus one it never runs
  out of it.
\<close>

theorem building_type_referenced_again:
  "(classes st (symName c) = None \<and> \<not> blacklisted ''class'' (symName c) \<and>
    heritage c = Some pn \<and> lookupSym env pn = Some p \<and>
    (pn = symName c \<or> (\<exists>pg. classes st pn = Some pg \<and> \<not> inited pg \<and> \<not> invalid pg)) \<longrightarrow>
      (\<exists>st1. classGen env (Suc (Suc fuel)) st c a =
          (Inl (GenConstructFail (symName c @ '' is mutually recursive with its ancestor ''
                  @ pn @ '' in a confusing way'')), st1) \<and>
         (\<exists>g. classes st1 (symName c) = Some g \<and> invalid g))) \<and>
   (lookupSym env n = Some s \<and> classes st n = Some g \<and> \<not> invalid g \<longrightarrow>
      typeGen env (Suc fuel) st (TClass n) = (Inr (ClassRef n), st)) \<and>
   (length env + 1 < k \<longrightarrow> fst (classGen env k st c a) \<noteq> Inl OutOfFuel)"
proof (intro conjI impI)
  assume h: "classes st (symName c) = None \<and> \<not> blacklisted ''class'' (symName c) \<and>
    heritage c = Some pn \<and> lookupSym env pn = Some p \<and>
    (pn = symName c \<or> (\<exists>pg. classes st pn = Some pg \<and> \<not> inited pg \<and> \<not> invalid pg))"
  let ?nm = "symName c"
  let ?result = "newClassGen ?nm a"
  let ?st0 = "setClass ?nm ?result st"
  let ?msg = "?nm @ '' is mutually recursive with its ancestor '' @ pn @ '' in a confusing way''"
  from h lookupSym_Some [of env pn p] have p: "symName p = pn" by simp
  have "\<exists>pg. classes ?st0 pn = Some pg \<and> \<not> inited pg \<and> \<not> invalid pg"
  proof (cases "pn = ?nm")
    case True
    then show ?thesis by (simp add: newClassGen_def)
  next
    case False
    with h show ?thesis by simp
  qed
  then obtain pg where pg: "classes ?st0 pn = Some pg" "\<not> inited pg" "\<not> invalid pg"
    by blast
  then have "classGen env (Suc fuel) ?st0 p False = (Inr (ClassRef pn), ?st0)"
    by (simp add: p Let_def del: classes_setClass)
  with h pg have "inheritGen (classGen env (Suc fuel)) env ?st0 c = (Inl (GenConstructFail ?msg), ?st0)"
    by (simp add: inheritGen_def del: classGen.simps classes_setClass)
  then have "classBody (classGen env (Suc fuel)) env ?st0 c = (Inl (GenConstructFail ?msg), ?st0)"
    by (simp add: classBody_def del: classGen.simps)
  with h have "classGen env (Suc (Suc fuel)) st c a =
      (Inl (GenConstructFail ?msg), setClass ?nm (setInvalid ?result) ?st0)"
    using classGen_fresh [of st c env "Suc fuel" a] by (simp del: classGen.simps)
  moreover have "\<exists>g. classes (setClass ?nm (setInvalid ?result) ?st0) ?nm = Some g \<and> invalid g"
    by (simp add: setInvalid_def)
  ultimately show "\<exists>st1. classGen env (Suc (Suc fuel)) st c a = (Inl (GenConstructFail ?msg), st1) \<and>
         (\<exists>g. classes st1 ?nm = Some g \<and> invalid g)"
    by blast
next
  assume h: "lookupSym env n = Some s \<and> classes st n = Some g \<and> \<not> invalid g"
  with lookupSym_Some [of env n s] show "typeGen env (Suc fuel) st (TClass n) = (Inr (ClassRef n), st)"
    by (simp add: typeGen_def typeGenWith_def Let_def)
next
  assume "length env + 1 < k"
  then show "fst (classGen env k st c a) \<noteq> Inl OutOfFuel" by (rule classGen_fuel)
qed

theorem building_type_referenced_again_witness:
  "classes exBuildingX (symName exY) = None \<and> \<not> blacklisted ''class'' (symName exY) \<and>
   heritage exY = Some ''X'' \<and> lookupSym [exX, exY] ''X'' = Some exX \<and>
   (\<exists>pg. classes exBuildingX ''X'' = Some pg \<and> \<not> inited pg \<and> \<not> invalid pg) \<and>
   (\<exists>st1. classGen [exX, exY] 2 exBuildingX exY False =
      (Inl (GenConstructFail ''Y is mutually recursive with its ancestor X in a confusing way''),
       st1)) \<and>
   lookupSym [exSelf] ''Foo'' = Some exSelf \<and>
   (\<exists>g. classes exBuildingFoo ''Foo'' = Some g \<and> \<not> inited g \<and> \<not> invalid g) \<and>
   typeGen [exSelf] 1 exBuildingFoo (TClass ''Foo'') = (Inr (ClassRef ''Foo''), exBuildingFoo) \<and>
   length [exX, exY] + 1 < (4::nat) \<and>
   fst (classGen [exX, exY] 4 emptyState exX False) \<noteq> Inl OutOfFuel"
proof -
  have 1: "classes exBuildingX (symName exY) = None \<and> \<not> blacklisted ''class'' (symName exY) \<and>
   heritage exY = Some ''X'' \<and> lookupSym [exX, exY] ''X'' = Some exX"
    by (simp add: exBuildingX_def emptyState_def exX_def exY_def blacklisted_def blacklist_def
        lookupSym_def)
  have 2: "\<exists>pg. classes exBuildingX ''X'' = Some pg \<and> \<not> inited pg \<and> \<not> invalid pg"
    by (simp add: exBuildingX_def newClassGen_def)
  from building_type_referenced_again [where st = exBuildingX and c = exY and pn = "''X''"
      and env = "[exX, exY]" and p = exX and fuel = 0 and a = False] 1 2
  obtain st1 where "classGen [exX, exY] (Suc (Suc 0)) exBuildingX exY False =
      (Inl (GenConstructFail (symName exY @ '' is mutually recursive with its ancestor ''
                  @ ''X'' @ '' in a confusing way'')), st1)"
    by blast
  then have 3: "\<exists>st1. classGen [exX, exY] 2 exBuildingX exY False =
      (Inl (GenConstructFail ''Y is mutually recursive with its ancestor X in a confusing way''),
       st1)"
    by (simp add: exY_def numeral_2_eq_2 del: classGen.simps)
  have 4: "lookupSym [exSelf] ''Foo'' = Some exSelf"
    by (simp add: lookupSym_def exSelf_def)
  have 5: "\<exists>g. classes exBuildingFoo ''Foo'' = Some g \<and> \<not> inited g \<and> \<not> invalid g"
    by (simp add: exBuildingFoo_def newClassGen_def)
  then obtain g where g: "classes exBuildingFoo ''Foo'' = Some g" "\<not> invalid g" by blast
  from building_type_referenced_again [where env = "[exSelf]" and n = "''Foo''" and s = exSelf
      and st = exBuildingFoo and g = g and fuel = 0] 4 g
  have 6: "typeGen [exSelf] 1 exBuildingFoo (TClass ''Foo'') = (Inr (ClassRef ''Foo''), exBuildingFoo)"
    by simp
  have 7: "length [exX, exY] + 1 < (4::nat)" by simp
  from building_type_referenced_again [where env = "[exX, exY]" and k = 4 and st = emptyState
      and c = exX and a = False] 7
  have 8: "fst (classGen [exX, exY] 4 emptyState exX False) \<noteq> Inl OutOfFuel" by blast
  from 1 2 3 4 5 6 7 8 show ?thesis by (intro conjI) (elim conjE, assumption)+
qed

text \<open>
  C7 as stated fails: while \<open>Foo\<close> is under construction its field refers to \<open>Foo\<close> again;
  the reference is answered with the node under construction, and \<open>Foo\<close> is built, with the
  field and without a warning.
\<close>

theorem self_reference_builds_counterexample:
  "classes exBuildingFoo ''Foo'' = Some (ClassGen ''Foo'' False None [] [] [] False False) \<and>
   fst (typeGen [exSelf] 1 exBuildingFoo (TClass ''Foo'')) = Inr (ClassRef ''Foo'') \<and>
   fst (classGen [exSelf] 2 emptyState exSelf False) = Inr (ClassRef ''Foo'') \<and>
   classes (snd (classGen [exSelf] 2 emptyState exSelf False)) ''Foo'' =
     Some (ClassGen ''Foo'' False None [IdentifierGen ''self'' (ClassRef ''Foo'')]
             [ConstructorGen [] (Some ''Foo'')] [] True False) \<and>
   warnings (snd (classGen [exSelf] 2 emptyState exSelf False)) = []"
  by (simp add: eval_vendor exSelf_def exBuildingFoo_def numeral_2_eq_2)

section \<open>Constructors of a class: inherited, default, or the ones accepted\<close>

text \<open>
  C3 (amended). The test of the source is on \<open>foundConstructors\<close>, which counts the
  constructor declarations attempted, not the ones accepted. A class newly built has
  itself as the owner of each of its constructors, the type they render against. If it
  declares no constructor: without a parent it has exactly one constructor, without
  parameters; with a parent it has one constructor for each constructor of the parent, in
  order, with the parent's parameter list. If it declares constructors, it has exactly
  the declarations that translate, in order, and nothing is inherited or synthesized: when
  none of them translates it has no constructor at all, with or without a parent.
\<close>

theorem constructors_inherited_default_or_accepted:
  "classes st (symName c) = None \<and> classGen env fuel st c a = (Inr t, st') \<longrightarrow>
     (\<exists>g. classes st' (symName c) = Some g \<and> inited g \<and>
        (\<forall>k \<in> set (constructors g). ctorOwner k = Some (symName c)) \<and>
        (concat (map memberDeclarations (members c)) = [] \<longrightarrow>
           (case heritage c of
              None \<Rightarrow>
                inherit g = None \<and> constructors g = [ConstructorGen [] (Some (symName c))]
            | Some pn \<Rightarrow>
                (\<exists>p. inherit g = Some p \<and> classes st' pn = Some p \<and>
                   constructors g =
                     map (\<lambda>k. ConstructorGen (ctorParams k) (Some (symName c)))
                       (constructors p)))) \<and>
        (concat (map memberDeclarations (members c)) \<noteq> [] \<longrightarrow>
           constructors g =
             map (\<lambda>ps. ConstructorGen ps (Some (symName c)))
               (concat (map (memberConstructors env) (members c)))) \<and>
        (concat (map memberDeclarations (members c)) \<noteq> [] \<and>
         (\<forall>d \<in> set (concat (map memberDeclarations (members c))). parametersOf env d = None)
           \<longrightarrow> constructors g = []))"
proof (intro impI)
  assume h: "classes st (symName c) = None \<and> classGen env fuel st c a = (Inr t, st')"
  let ?nm = "symName c"
  let ?ds = "concat (map memberDeclarations (members c))"
  from classGen_shape [OF conjunct1 [OF h] conjunct2 [OF h]]
  obtain g where g: "classes st' ?nm = Some g" "inited g"
    and inh: "case heritage c of
        None \<Rightarrow> inherit g = None
      | Some pn \<Rightarrow> (\<exists>p. inherit g = Some p \<and> classes st' pn = Some p \<and> inited p)"
    and cs: "constructors g =
       (if ?ds = []
        then (case inherit g of
                Some p \<Rightarrow> map (\<lambda>k. ConstructorGen (ctorParams k) (Some ?nm)) (constructors p)
              | None \<Rightarrow> [ConstructorGen [] (Some ?nm)])
        else map (\<lambda>ps. ConstructorGen ps (Some ?nm))
               (concat (map (memberConstructors env) (members c))))"
    by blast
  have own: "\<forall>k \<in> set (constructors g). ctorOwner k = Some ?nm"
  proof (cases "?ds = []")
    case True
    from cs have "constructors g =
        (case inherit g of
           Some p \<Rightarrow> map (\<lambda>k. ConstructorGen (ctorParams k) (Some ?nm)) (constructors p)
         | None \<Rightarrow> [ConstructorGen [] (Some ?nm)])"
      unfolding if_P [OF True] .
    then show ?thesis by (cases "inherit g") auto
  next
    case False
    from cs have "constructors g = map (\<lambda>ps. ConstructorGen ps (Some ?nm))
               (concat (map (memberConstructors env) (members c)))"
      unfolding if_not_P [OF False] .
    then show ?thesis by auto
  qed
  have none: "?ds = [] \<longrightarrow>
           (case heritage c of
              None \<Rightarrow> inherit g = None \<and> constructors g = [ConstructorGen [] (Some ?nm)]
            | Some pn \<Rightarrow>
                (\<exists>p. inherit g = Some p \<and> classes st' pn = Some p \<and>
                   constructors g =
                     map (\<lambda>k. ConstructorGen (ctorParams k) (Some ?nm)) (constructors p)))"
  proof
    assume e: "?ds = []"
    from cs have c': "constructors g =
        (case inherit g of
           Some p \<Rightarrow> map (\<lambda>k. ConstructorGen (ctorParams k) (Some ?nm)) (constructors p)
         | None \<Rightarrow> [ConstructorGen [] (Some ?nm)])"
      unfolding if_P [OF e] .
    show "case heritage c of
              None \<Rightarrow> inherit g = None \<and> constructors g = [ConstructorGen [] (Some ?nm)]
            | Some pn \<Rightarrow>
                (\<exists>p. inherit g = Some p \<and> classes st' pn = Some p \<and>
                   constructors g =
                     map (\<lambda>k. ConstructorGen (ctorParams k) (Some ?nm)) (constructors p))"
    proof (cases "heritage c")
      case None
      with inh c' show ?thesis by simp
    next
      case (Some pn)
      with inh obtain p where "inherit g = Some p" "classes st' pn = Some p" by auto
      with c' Some show ?thesis by simp
    qed
  qed
  have some: "?ds \<noteq> [] \<longrightarrow>
           constructors g =
             map (\<lambda>ps. ConstructorGen ps (Some ?nm))
               (concat (map (memberConstructors env) (members c)))"
  proof
    assume ne: "?ds \<noteq> []"
    from cs show "constructors g =
             map (\<lambda>ps. ConstructorGen ps (Some ?nm))
               (concat (map (memberConstructors env) (members c)))"
      unfolding if_not_P [OF ne] .
  qed
  have rejected: "?ds \<noteq> [] \<and> (\<forall>d \<in> set ?ds. parametersOf env d = None)
           \<longrightarrow> constructors g = []"
  proof
    assume r: "?ds \<noteq> [] \<and> (\<forall>d \<in> set ?ds. parametersOf env d = None)"
    from some r have "constructors g =
             map (\<lambda>ps. ConstructorGen ps (Some ?nm))
               (concat (map (memberConstructors env) (members c)))" by blast
    also from concat_map_filter_None [OF conjunct2 [OF r]]
    have "concat (map (memberConstructors env) (members c)) = []" .
    finally show "constructors g = []" by simp
  qed
  show "\<exists>g. classes st' ?nm = Some g \<and> inited g \<and>
        (\<forall>k \<in> set (constructors g). ctorOwner k = Some ?nm) \<and>
        (?ds = [] \<longrightarrow>
           (case heritage c of
              None \<Rightarrow> inherit g = None \<and> constructors g = [ConstructorGen [] (Some ?nm)]
            | Some pn \<Rightarrow>
                (\<exists>p. inherit g = Some p \<and> classes st' pn = Some p \<and>
                   constructors g =
                     map (\<lambda>k. ConstructorGen (ctorParams k) (Some ?nm)) (constructors p)))) \<and>
        (?ds \<noteq> [] \<longrightarrow>
           constructors g =
             map (\<lambda>ps. ConstructorGen ps (Some ?nm))
               (concat (map (memberConstructors env) (members c)))) \<and>
        (?ds \<noteq> [] \<and> (\<forall>d \<in> set ?ds. parametersOf env d = None) \<longrightarrow> constructors g = [])"
    apply (rule exI [of _ g])
    apply (rule conjI, rule g(1))
    apply (rule conjI, rule g(2))
    apply (rule conjI, rule own)
    apply (rule conjI, rule none)
    apply (rule conjI, rule some)
    apply (rule rejected)
    done
qed

theorem constructors_inherited_default_or_accepted_witness:
  "classes emptyState (symName exC) = None \<and>
   concat (map memberDeclarations (members exC)) = [] \<and>
   classGen [exP, exC] 3 emptyState exC False = (Inr (ClassRef ''C''), exBuiltC) \<and>
   (\<exists>g p. classes exBuiltC ''C'' = Some g \<and> inherit g = Some p \<and>
      classes exBuiltC ''P'' = Some p \<and>
      map ctorParams (constructors p) = [[IdentifierGen ''x'' (LiteralTypeGen ''float'')], []] \<and>
      constructors g =
        [ConstructorGen [IdentifierGen ''x'' (LiteralTypeGen ''float'')] (Some ''C''),
         ConstructorGen [] (Some ''C'')] \<and>
      map constructorDeclString (constructors g) =
        [Some ''proc newC*(x: float) : C {.importcpp:\"new C(@)\".}'',
         Some ''proc newC*() : C {.importcpp:\"new C\".}'']) \<and>
   classes emptyState (symName exD) = None \<and>
   concat (map memberDeclarations (members exD)) = [[ParamSym ''o'' (TOther ''any'')]] \<and>
   parametersOf [exP, exD] [ParamSym ''o'' (TOther ''any'')] = None \<and>
   classGen [exP, exD] 3 emptyState exD False = (Inr (ClassRef ''D''), exBuiltD) \<and>
   (\<exists>g. classes exBuiltD ''D'' = Some g \<and> constructors g = [])"
proof -
  have 1: "classes emptyState (symName exC) = None" by (simp add: emptyState_def)
  have 2: "concat (map memberDeclarations (members exC)) = []"
    by (simp add: exC_def memberDeclarations_def)
  have 3: "classGen [exP, exC] 3 emptyState exC False = (Inr (ClassRef ''C''), exBuiltC)"
    using exC_builds by (simp add: numeral_3_eq_3)
  note T = constructors_inherited_default_or_accepted [where st = emptyState and c = exC
      and env = "[exP, exC]" and fuel = 3 and a = False and t = "ClassRef ''C''"
      and st' = exBuiltC, THEN mp, OF conjI [OF 1 3]]
  from T 2 obtain g p where g: "classes exBuiltC ''C'' = Some g" "inherit g = Some p"
    "classes exBuiltC ''P'' = Some p"
    "constructors g = map (\<lambda>k. ConstructorGen (ctorParams k) (Some ''C'')) (constructors p)"
    by (auto simp: exC_def)
  from g(3) have p: "p = exPGen" by (simp add: exBuiltC_def)
  have ps: "map ctorParams (constructors p) = [[IdentifierGen ''x'' (LiteralTypeGen ''float'')], []]"
    by (simp add: p exPGen_def)
  from g(4) have cs: "constructors g =
        [ConstructorGen [IdentifierGen ''x'' (LiteralTypeGen ''float'')] (Some ''C''),
         ConstructorGen [] (Some ''C'')]"
    by (simp add: p exPGen_def)
  have ds: "map constructorDeclString (constructors g) =
        [Some ''proc newC*(x: float) : C {.importcpp:\"new C(@)\".}'',
         Some ''proc newC*() : C {.importcpp:\"new C\".}'']"
    by (simp add: cs constructorDeclString_def identifierScrub_def reserved_def params_def
        parameterDeclString_def toUpperCase_char_def Let_def)
  from g(1,2,3) ps cs ds have 4: "\<exists>g p. classes exBuiltC ''C'' = Some g \<and> inherit g = Some p \<and>
      classes exBuiltC ''P'' = Some p \<and>
      map ctorParams (constructors p) = [[IdentifierGen ''x'' (LiteralTypeGen ''float'')], []] \<and>
      constructors g =
        [ConstructorGen [IdentifierGen ''x'' (LiteralTypeGen ''float'')] (Some ''C''),
         ConstructorGen [] (Some ''C'')] \<and>
      map constructorDeclString (constructors g) =
        [Some ''proc newC*(x: float) : C {.importcpp:\"new C(@)\".}'',
         Some ''proc newC*() : C {.importcpp:\"new C\".}'']"
    by (intro exI [of _ g] exI [of _ p] conjI)
  have 5: "classes emptyState (symName exD) = None" by (simp add: emptyState_def)
  have 6: "concat (map memberDeclarations (members exD)) = [[ParamSym ''o'' (TOther ''any'')]]"
    by (simp add: exD_def memberDeclarations_def)
  have 7: "parametersOf [exP, exD] [ParamSym ''o'' (TOther ''any'')] = None"
    by (simp add: parametersOf_def typeOf_def)
  have 8: "classGen [exP, exD] 3 emptyState exD False = (Inr (ClassRef ''D''), exBuiltD)"
    using exD_builds by (simp add: numeral_3_eq_3)
  note U = constructors_inherited_default_or_accepted [where st = emptyState and c = exD
      and env = "[exP, exD]" and fuel = 3 and a = False and t = "ClassRef ''D''"
      and st' = exBuiltD, THEN mp, OF conjI [OF 5 8]]
  from U 6 7 have 9: "\<exists>g. classes exBuiltD ''D'' = Some g \<and> constructors g = []"
    by (auto simp: exD_def)
  from 1 2 3 4 5 6 7 8 9 show ?thesis by (intro conjI)
qed

text \<open>
  C3 as stated fails, in both of its branches. The class \<open>Q\<close> declares one constructor,
  which is rejected with a warning; no constructor was accepted and \<open>Q\<close> has no parent,
  yet no zero-parameter constructor is synthesized: \<open>Q\<close> is built with no constructor at
  all. The class \<open>D\<close> declares one constructor, rejected as well; its parent \<open>P\<close> has two
  constructors, yet none is copied: \<open>D\<close> is built with no constructor at all.
\<close>

theorem rejected_constructor_counterexample:
  "fst (classGen [exQ] 2 emptyState exQ False) = Inr (ClassRef ''Q'') \<and>
   heritage exQ = None \<and>
   classes (snd (classGen [exQ] 2 emptyState exQ False)) ''Q'' =
     Some (ClassGen ''Q'' False None [] [] [] True False) \<and>
   warnings (snd (classGen [exQ] 2 emptyState exQ False)) =
     [CouldNotTranslateConstructor 1 ''Q'' (TOther ''any'')] \<and>
   fst (classGen [exP, exD] 3 emptyState exD False) = Inr (ClassRef ''D'') \<and>
   heritage exD = Some ''P'' \<and>
   classes (snd (classGen [exP, exD] 3 emptyState exD False)) ''P'' = Some exPGen \<and>
   constructors exPGen =
     [ConstructorGen [IdentifierGen ''x'' (LiteralTypeGen ''float'')] (Some ''P''),
      ConstructorGen [] (Some ''P'')] \<and>
   classes (snd (classGen [exP, exD] 3 emptyState exD False)) ''D'' =
     Some (ClassGen ''D'' False (Some exPGen) [] [] [] True False) \<and>
   warnings (snd (classGen [exP, exD] 3 emptyState exD False)) =
     [CouldNotTranslateConstructor 2 ''P'' (TOther ''any''),
      CouldNotTranslateConstructor 1 ''D'' (TOther ''any'')]"
proof -
  have q: "fst (classGen [exQ] 2 emptyState exQ False) = Inr (ClassRef ''Q'') \<and>
   heritage exQ = None \<and>
   classes (snd (classGen [exQ] 2 emptyState exQ False)) ''Q'' =
     Some (ClassGen ''Q'' False None [] [] [] True False) \<and>
   warnings (snd (classGen [exQ] 2 emptyState exQ False)) =
     [CouldNotTranslateConstructor 1 ''Q'' (TOther ''any'')]"
    by (simp add: eval_vendor exQ_def numeral_2_eq_2)
  have d: "classGen [exP, exD] 3 emptyState exD False = (Inr (ClassRef ''D''), exBuiltD)"
    using exD_builds by (simp add: numeral_3_eq_3)
  have d1: "fst (classGen [exP, exD] 3 emptyState exD False) = Inr (ClassRef ''D'')"
    by (simp add: d)
  have d2: "heritage exD = Some ''P''" by (simp add: exD_def)
  have d3: "classes (snd (classGen [exP, exD] 3 emptyState exD False)) ''P'' = Some exPGen"
    by (simp add: d exBuiltD_def)
  have d4: "constructors exPGen =
     [ConstructorGen [IdentifierGen ''x'' (LiteralTypeGen ''float'')] (Some ''P''),
      ConstructorGen [] (Some ''P'')]"
    by (simp add: exPGen_def)
  have d5: "classes (snd (classGen [exP, exD] 3 emptyState exD False)) ''D'' =
     Some (ClassGen ''D'' False (Some exPGen) [] [] [] True False)"
    by (simp add: d exBuiltD_def exDGen_def)
  have d6: "warnings (snd (classGen [exP, exD] 3 emptyState exD False)) =
     [CouldNotTranslateConstructor 2 ''P'' (TOther ''any''),
      CouldNotTranslateConstructor 1 ''D'' (TOther ''any'')]"
    by (simp add: d exBuiltD_def)
  from q d1 d2 d3 d4 d5 d6 show ?thesis by (intro conjI) (elim conjE, assumption)+
qed

section \<open>Fields declared along the chain of parents\<close>

text \<open>
  C9 (amended). No field of a class newly built is a field of its parent or of a further
  ancestor; and after the main loop over any symbols, started with an empty table, this
  holds of every class in the table. A property whose name occurs along the chain of the
  parent and which is not denylisted is passed over without a warning: the member loop
  leaves its variables and the state as they were. (The denylist is tested first, and a
  denylisted property gets the denylist warning.)
\<close>

theorem inherited_fields_not_redeclared:
  "(classes st (symName c) = None \<and> classGen env fuel st c a = (Inr t, st') \<longrightarrow>
      (\<exists>g. classes st' (symName c) = Some g \<and>
         (\<forall>f \<in> set (fields g). \<not> chainHasField (inherit g) (name f)))) \<and>
   (symbolLoop env fuel symbols emptyState [] = (r, st2) \<and> classes st2 n = Some g \<longrightarrow>
      (\<forall>f \<in> set (fields g). \<not> chainHasField (inherit g) (name f))) \<and>
   (chainHasField inh mn \<and> \<not> blacklisted ''field'' (cn @ ''.'' @ mn) \<longrightarrow>
      memberGen tg cn inh st l (Property mn ty) = (Inr l, st))"
proof (intro conjI impI)
  assume h: "classes st (symName c) = None \<and> classGen env fuel st c a = (Inr t, st')"
  let ?nm = "symName c"
  let ?result = "newClassGen ?nm a"
  from h obtain k inh l sti st1 where
    ml: "memberLoop (typeGenWith (classGen env k) env) ?nm inh (members c) sti
           (Locals [] [] [] 0) = (Inr l, st1)"
    and st': "st' = setClass ?nm
            (init ?result inh (l_fields l) (defaultConstructors inh l) (l_methods l)) st1"
    by (elim conjE classGen_built)
  from memberLoop_fields [OF _ ml] have "\<forall>f \<in> set (l_fields l). \<not> chainHasField inh (name f)"
    by simp
  then show "\<exists>g. classes st' ?nm = Some g \<and>
         (\<forall>f \<in> set (fields g). \<not> chainHasField (inherit g) (name f))"
    by (simp add: st' init_def)
next
  assume h: "symbolLoop env fuel symbols emptyState [] = (r, st2) \<and> classes st2 n = Some g"
  have "\<forall>n g. classes (snd (symbolLoop env fuel symbols emptyState [])) n = Some g \<longrightarrow>
      (\<forall>f \<in> set (fields g). \<not> chainHasField (inherit g) (name f))"
    by (rule symbolLoop_entries [OF no_redeclared_entries]) (simp_all add: emptyState_def)
  with h show "\<forall>f \<in> set (fields g). \<not> chainHasField (inherit g) (name f)" by auto
next
  assume "chainHasField inh mn \<and> \<not> blacklisted ''field'' (cn @ ''.'' @ mn)"
  then show "memberGen tg cn inh st l (Property mn ty) = (Inr l, st)"
    by (simp add: memberGen_def)
qed

theorem inherited_fields_not_redeclared_witness:
  "classes emptyState (symName exC) = None \<and>
   classGen [exP, exC] 3 emptyState exC False = (Inr (ClassRef ''C''), exBuiltC) \<and>
   symbolLoop [exP, exC] 3 [ClassSymbol exC] emptyState [] =
     (Inr [TypeRef (ClassRef ''C'')], exBuiltC) \<and>
   classes exBuiltC ''C'' = Some exCGen \<and> map name (fields exCGen) = [''g''] \<and>
   chainHasField (inherit exCGen) ''f'' \<and> \<not> chainHasField (inherit exCGen) ''g'' \<and>
   chainHasField (Some exPGen) ''f'' \<and> \<not> blacklisted ''field'' (''C'' @ ''.'' @ ''f'') \<and>
   memberGen (typeGen [exP, exC] 2) ''C'' (Some exPGen) emptyState (Locals [] [] [] 0)
       (Property ''f'' TNumber) = (Inr (Locals [] [] [] 0), emptyState)"
proof -
  have 1: "classes emptyState (symName exC) = None"
    by (simp add: emptyState_def)
  have 2: "classGen [exP, exC] 3 emptyState exC False = (Inr (ClassRef ''C''), exBuiltC)"
    using exC_builds by (simp add: numeral_3_eq_3)
  from inherited_fields_not_redeclared [where st = emptyState and c = exC
      and env = "[exP, exC]" and fuel = 3 and a = False and t = "ClassRef ''C''"
      and st' = exBuiltC] 1 2
  obtain g where g: "classes exBuiltC (symName exC) = Some g"
    "\<forall>f \<in> set (fields g). \<not> chainHasField (inherit g) (name f)" by blast
  from g(1) have gc: "g = exCGen" by (simp add: exBuiltC_def exC_def)
  have 3: "symbolLoop [exP, exC] 3 [ClassSymbol exC] emptyState [] =
     (Inr [TypeRef (ClassRef ''C'')], exBuiltC)"
    using 2 by (simp add: symbolGen_def del: classGen.simps)
  have 4: "classes exBuiltC ''C'' = Some exCGen" by (simp add: exBuiltC_def)
  from inherited_fields_not_redeclared [where env = "[exP, exC]" and fuel = 3
      and symbols = "[ClassSymbol exC]" and r = "Inr [TypeRef (ClassRef ''C'')]"
      and ?st2.0 = exBuiltC and n = "''C''" and g = exCGen] 3 4
  have "\<forall>f \<in> set (fields exCGen). \<not> chainHasField (inherit exCGen) (name f)" by blast
  then have 5: "map name (fields exCGen) = [''g''] \<and>
      chainHasField (inherit exCGen) ''f'' \<and> \<not> chainHasField (inherit exCGen) ''g''"
    by (simp add: exCGen_def exPGen_def)
  have 6: "chainHasField (Some exPGen) ''f'' \<and> \<not> blacklisted ''field'' (''C'' @ ''.'' @ ''f'')"
    by (simp add: exPGen_def blacklisted_def blacklist_def)
  from inherited_fields_not_redeclared [where inh = "Some exPGen" and mn = "''f''"
      and cn = "''C''" and tg = "typeGen [exP, exC] 2" and st = emptyState
      and l = "Locals [] [] [] 0" and ty = TNumber] 6
  have 7: "memberGen (typeGen [exP, exC] 2) ''C'' (Some exPGen) emptyState (Locals [] [] [] 0)
       (Property ''f'' TNumber) = (Inr (Locals [] [] [] 0), emptyState)" by blast
  from 1 2 3 4 5 6 7 show ?thesis by (intro conjI) (elim conjE, assumption)+
qed

text \<open>
  C9 as stated fails: \<open>webkitRequestFullScreen\<close> of \<open>Element\<close> is a field of the parent
  \<open>Node\<close> too. It is dropped, but not silently: the denylist warning is given for it.
\<close>

theorem denylisted_inherited_field_counterexample:
  "generatorsOf [exNode, exElement] 3 [ClassSymbol exElement] =
     Inr ([ClassGenerator (ClassGen ''Element'' False (Some exNodeGen) []
             [ConstructorGen [] (Some ''Element'')] [] True False)],
          [BlacklistedField ''webkitRequestFullScreen'' ''Element'']) \<and>
   chainHasField (Some exNodeGen) ''webkitRequestFullScreen''"
  by (simp add: generatorsOf_def resolve_def eval_vendor exNode_def exElement_def exNodeGen_def
      numeral_3_eq_3)

section \<open>Dependencies are emitted first\<close>

text \<open>
  C1 (amended). Let the component analysis return \<open>sccs\<close> for the graph of the generators.
  Then the last loop ends with an output \<open>out\<close> in which no two declarations share a key,
  and for every declaration \<open>gen\<close> of the output, wherever it stands (\<open>out = xs @ gen # ys\<close>),
  each of its dependency keys is its own key, or the key of a declaration before it (in
  \<open>xs\<close>), or the key of no declaration of the output.
\<close>

theorem emitted_dependencies_come_first:
  "tarjanResult (dependencies generators) sccs \<longrightarrow>
     (\<exists>out ws. sortedGenerators generators sccs = Inr (out, ws) \<and>
        distinct (map dependKey out) \<and>
        (\<forall>xs gen ys d. out = xs @ gen # ys \<and> d \<in> set (depends gen) \<longrightarrow>
           d = dependKey gen \<or> d \<in> dependKey ` set xs \<or> d \<notin> dependKey ` set out))"
proof
  assume t: "tarjanResult (dependencies generators) sccs"
  let ?G = "dependencies generators"
  let ?h = "\<lambda>z. if length z = 1 then node ?G (hd z) else None"
  let ?out = "List.map_filter ?h sccs"
  let ?ws = "map MutuallyRecursive (filter (\<lambda>scc. 1 < length scc) sccs)"
  from t have d: "distinct (concat sccs)" by (simp add: tarjanResult_def)
  have h: "dependKey y = k \<and> z = [k] \<and> node ?G k = Some y \<and> y \<in> set generators"
    if "?h z = Some y" and "k = hd z" for z y k
    using that dependencies_node [of generators "hd z" y]
    by (cases z) (auto split: if_splits)
  have eq: "sortedGenerators generators sccs = Inr (?out, ?ws)"
    using sortedGenerators_eq [OF t] by (simp add: map_filter_filter)
  have dk: "distinct (map dependKey ?out)"
    using h by (intro distinct_keys_map_filter [OF _ d]) (metis list.set_intros(1))
  have ord: "d = dependKey gen \<or> d \<in> dependKey ` set xs \<or> d \<notin> dependKey ` set ?out"
    if split: "?out = xs @ gen # ys" and dep: "d \<in> set (depends gen)" for xs gen ys d
  proof -
    from map_filter_split [OF split] obtain pre z post where
      z: "sccs = pre @ z # post" "?h z = Some gen" "xs = List.map_filter ?h pre" by blast
    from h [OF z(2) refl] have k: "dependKey gen = hd z" "z = [hd z]" "gen \<in> set generators"
      by auto
    let ?i = "length pre"
    from z(1) have i: "?i < length sccs" "sccs ! ?i = z" by simp_all
    from k dep have "(hd z, d) \<in> set (edges ?G)" by (auto simp: dependencies_edges)
    moreover from k i have "hd z \<in> set (sccs ! ?i)" by (metis list.set_intros(1))
    ultimately have "d \<in> set (concat (take (Suc ?i) sccs))"
      using t i(1) by (auto simp: tarjanResult_def)
    from concat_take_index [OF this] obtain j where
      j: "j < Suc ?i" "j < length sccs" "d \<in> set (sccs ! j)" by blast
    show ?thesis
    proof (cases "j = ?i")
      case True
      with j i k have "d = dependKey gen" by (metis empty_iff empty_set set_ConsD)
      then show ?thesis by simp
    next
      case False
      with j have ji: "j < ?i" by simp
      show ?thesis
      proof (cases "d \<in> dependKey ` set ?out")
        case False
        then show ?thesis by simp
      next
        case True
        then obtain y z' where y: "z' \<in> set sccs" "?h z' = Some y" "dependKey y = d"
          by (auto simp: in_map_filter)
        from y(1) obtain m where m: "m < length sccs" "sccs ! m = z'"
          by (auto simp: in_set_conv_nth)
        from h [OF y(2) refl] y(3) have "d \<in> set z'" by (metis list.set_intros(1))
        with m have "d \<in> set (sccs ! m)" by simp
        from distinct_concat_index [OF d m(1) j(2) this j(3)] have "m = j" .
        with m ji z(1) have "z' \<in> set pre" by (auto simp: nth_append)
        with y(2) have "\<exists>u \<in> set pre. ?h u = Some y" by blast
        then have "y \<in> set xs" unfolding z(3) in_map_filter .
        with y(3) show ?thesis by auto
      qed
    qed
  qed
  from eq dk ord show "\<exists>out ws. sortedGenerators generators sccs = Inr (out, ws) \<and>
        distinct (map dependKey out) \<and>
        (\<forall>xs gen ys d. out = xs @ gen # ys \<and> d \<in> set (depends gen) \<longrightarrow>
           d = dependKey gen \<or> d \<in> dependKey ` set xs \<or> d \<notin> dependKey ` set out)"
    by blast
qed

theorem emitted_dependencies_come_first_witness:
  "tarjanResult (dependencies exGens) [[''P''], [''C''], [''v'']] \<and>
   sortedGenerators exGens [[''P''], [''C''], [''v'']] =
     Inr ([ClassGenerator exPGen, ClassGenerator exCGen,
           VariableGenerator (IdentifierGen ''v'' (ClassRef ''C''))], []) \<and>
   depends (ClassGenerator exCGen) = [''P''] \<and>
   (''P'' = dependKey (ClassGenerator exCGen) \<or>
    ''P'' \<in> dependKey ` set [ClassGenerator exPGen] \<or>
    ''P'' \<notin> dependKey ` set [ClassGenerator exPGen, ClassGenerator exCGen,
           VariableGenerator (IdentifierGen ''v'' (ClassRef ''C''))])"
proof -
  let ?out = "[ClassGenerator exPGen, ClassGenerator exCGen,
           VariableGenerator (IdentifierGen ''v'' (ClassRef ''C''))]"
  have 1: "tarjanResult (dependencies exGens) [[''P''], [''C''], [''v'']]"
    by (rule exGens_tarjan)
  have 2: "sortedGenerators exGens [[''P''], [''C''], [''v'']] = Inr (?out, [])"
    by (simp add: eval_graph exGens_def exCGen_def exPGen_def)
  have 3: "depends (ClassGenerator exCGen) = [''P'']"
    by (simp add: eval_graph exCGen_def exPGen_def)
  from emitted_dependencies_come_first [where generators = exGens
      and sccs = "[[''P''], [''C''], [''v'']]"] 1 2
  have "\<forall>xs gen ys d. ?out = xs @ gen # ys \<and> d \<in> set (depends gen) \<longrightarrow>
           d = dependKey gen \<or> d \<in> dependKey ` set xs \<or> d \<notin> dependKey ` set ?out"
    by auto
  from this [rule_format, of "[ClassGenerator exPGen]" "ClassGenerator exCGen"
      "[VariableGenerator (IdentifierGen ''v'' (ClassRef ''C''))]" "''P''"] 3
  have 4: "''P'' = dependKey (ClassGenerator exCGen) \<or>
    ''P'' \<in> dependKey ` set [ClassGenerator exPGen] \<or>
    ''P'' \<notin> dependKey ` set ?out"
    by simp
  from 1 2 3 4 show ?thesis by (intro conjI)
qed

text \<open>
  C1 as stated fails: the class \<open>Foo\<close> with a field of type \<open>Foo\<close> is emitted, and its
  dependency key \<open>Foo\<close> names an emitted declaration, \<open>Foo\<close> itself, which does not come
  strictly earlier.
\<close>

theorem self_dependency_counterexample:
  "generatorsOf [exSelf] 2 [ClassSymbol exSelf] = Inr ([ClassGenerator exSelfGen], []) \<and>
   tarjanResult (dependencies [ClassGenerator exSelfGen]) [[''Foo'']] \<and>
   sortedGenerators [ClassGenerator exSelfGen] [[''Foo'']] = Inr ([ClassGenerator exSelfGen], []) \<and>
   depends (ClassGenerator exSelfGen) = [''Foo''] \<and>
   dependKey (ClassGenerator exSelfGen) = ''Foo''"
  by (simp add: generatorsOf_def resolve_def eval_vendor eval_graph tarjanResult_def exSelf_def
      exSelfGen_def numeral_2_eq_2)

section \<open>Mutually recursive groups are dropped\<close>

text \<open>
  C2 (amended). Let the component analysis return \<open>sccs\<close> for the graph of the
  generators. The warnings of the last loop are exactly one \<open>MutuallyRecursive\<close> warning
  for each component of more than one member, naming its members. For such a component:
  its warning is given, no declaration of the output has the key of one of its members,
  and no other warning names one of its members. In particular, for two classes \<open>a\<close> and
  \<open>b\<close> that were built and are both among the generators, with different names, where
  \<open>a\<close> was given a field of type \<open>b\<close> and \<open>b\<close> a field of type \<open>a\<close>: neither name is
  the key of a declaration of the output, and one warning names both.
\<close>

theorem mutually_recursive_group_dropped:
  "tarjanResult (dependencies generators) sccs \<longrightarrow>
     (\<exists>out ws. sortedGenerators generators sccs = Inr (out, ws) \<and>
        ws = map MutuallyRecursive (filter (\<lambda>scc. 1 < length scc) sccs) \<and> distinct ws \<and>
        (\<forall>scc. scc \<in> set sccs \<and> 1 < length scc \<longrightarrow>
           MutuallyRecursive scc \<in> set ws \<and>
           (\<forall>k \<in> set scc. k \<notin> dependKey ` set out) \<and>
           (\<forall>names. MutuallyRecursive names \<in> set ws \<and> set names \<inter> set scc \<noteq> {} \<longrightarrow>
              names = scc)) \<and>
        (\<forall>a b fa fb.
           ClassGenerator a \<in> set generators \<and> ClassGenerator b \<in> set generators \<and>
           className a \<noteq> className b \<and>
           fa \<in> set (fields a) \<and> type fa = ClassRef (className b) \<and>
           fb \<in> set (fields b) \<and> type fb = ClassRef (className a) \<longrightarrow>
             className a \<notin> dependKey ` set out \<and> className b \<notin> dependKey ` set out \<and>
             (\<exists>scc. MutuallyRecursive scc \<in> set ws \<and>
                className a \<in> set scc \<and> className b \<in> set scc)))"
proof
  assume t: "tarjanResult (dependencies generators) sccs"
  let ?G = "dependencies generators"
  let ?out = "List.map_filter (\<lambda>scc. node ?G (hd scc)) (filter (\<lambda>scc. length scc = 1) sccs)"
  let ?ws = "map MutuallyRecursive (filter (\<lambda>scc. 1 < length scc) sccs)"
  have eq: "sortedGenerators generators sccs = Inr (?out, ?ws)"
    by (rule sortedGenerators_eq [OF t])
  have dw: "distinct ?ws"
    using tarjanResult_distinct [OF t] by (simp add: distinct_map inj_on_def)
  have grp: "MutuallyRecursive scc \<in> set ?ws \<and>
           (\<forall>k \<in> set scc. k \<notin> dependKey ` set ?out) \<and>
           (\<forall>names. MutuallyRecursive names \<in> set ?ws \<and> set names \<inter> set scc \<noteq> {} \<longrightarrow>
              names = scc)"
    if scc: "scc \<in> set sccs" "1 < length scc" for scc
  proof (intro conjI ballI allI impI)
    from scc show "MutuallyRecursive scc \<in> set ?ws" by simp
  next
    fix k
    assume k: "k \<in> set scc"
    show "k \<notin> dependKey ` set ?out"
    proof
      assume "k \<in> dependKey ` set ?out"
      then obtain y z where z: "z \<in> set sccs" "length z = 1" "node ?G (hd z) = Some y"
        "dependKey y = k"
        by (auto simp: in_map_filter)
      from dependencies_node [OF z(3)] z(4) z(2) have "k \<in> set z"
        by (cases z) auto
      from tarjanResult_same [OF t z(1) scc(1) this k] z(2) scc(2) show False by simp
    qed
  next
    fix names
    assume "MutuallyRecursive names \<in> set ?ws \<and> set names \<inter> set scc \<noteq> {}"
    then obtain x where "names \<in> set sccs" "x \<in> set names" "x \<in> set scc" by auto
    from tarjanResult_same [OF t this(1) scc(1) this(2,3)] show "names = scc" .
  qed
  have pair: "className a \<notin> dependKey ` set ?out \<and> className b \<notin> dependKey ` set ?out \<and>
             (\<exists>scc. MutuallyRecursive scc \<in> set ?ws \<and>
                className a \<in> set scc \<and> className b \<in> set scc)"
    if ab: "ClassGenerator a \<in> set generators" "ClassGenerator b \<in> set generators"
      "className a \<noteq> className b"
      "fa \<in> set (fields a)" "type fa = ClassRef (className b)"
      "fb \<in> set (fields b)" "type fb = ClassRef (className a)" for a b fa fb
  proof -
    from ab(4,5) have "className b \<in> set (depends (ClassGenerator a))"
      by (auto simp: classDepends_def concatAll_def identifierDepends_def arrayFilter_def
          intro!: bexI [of _ fa])
    with ab(1) have e1: "(className a, className b) \<in> set (edges ?G)"
      by (auto simp: dependencies_edges intro!: bexI [of _ "ClassGenerator a"])
    from ab(6,7) have "className a \<in> set (depends (ClassGenerator b))"
      by (auto simp: classDepends_def concatAll_def identifierDepends_def arrayFilter_def
          intro!: bexI [of _ fb])
    with ab(2) have e2: "(className b, className a) \<in> set (edges ?G)"
      by (auto simp: dependencies_edges intro!: bexI [of _ "ClassGenerator b"])
    from ab(1) have "className a \<in> set (nodeIds ?G)"
      by (auto simp: dependencies_nodeIds intro!: rev_image_eqI [of "ClassGenerator a"])
    from tarjanResult_cycle [OF t e1 e2 this] obtain scc where
      scc: "scc \<in> set sccs" "className a \<in> set scc" "className b \<in> set scc" by blast
    with ab(3) have "1 < length scc"
      by (cases scc rule: list.exhaust, simp, rename_tac x xs, case_tac xs, auto)
    with grp [OF scc(1)] scc show ?thesis by blast
  qed
  have A: "\<forall>scc. scc \<in> set sccs \<and> 1 < length scc \<longrightarrow>
           MutuallyRecursive scc \<in> set ?ws \<and>
           (\<forall>k \<in> set scc. k \<notin> dependKey ` set ?out) \<and>
           (\<forall>names. MutuallyRecursive names \<in> set ?ws \<and> set names \<inter> set scc \<noteq> {} \<longrightarrow>
              names = scc)"
    using grp by blast
  have B: "\<forall>a b fa fb.
           ClassGenerator a \<in> set generators \<and> ClassGenerator b \<in> set generators \<and>
           className a \<noteq> className b \<and>
           fa \<in> set (fields a) \<and> type fa = ClassRef (className b) \<and>
           fb \<in> set (fields b) \<and> type fb = ClassRef (className a) \<longrightarrow>
             className a \<notin> dependKey ` set ?out \<and> className b \<notin> dependKey ` set ?out \<and>
             (\<exists>scc. MutuallyRecursive scc \<in> set ?ws \<and>
                className a \<in> set scc \<and> className b \<in> set scc)"
    using pair by blast
  show "\<exists>out ws. sortedGenerators generators sccs = Inr (out, ws) \<and>
        ws = map MutuallyRecursive (filter (\<lambda>scc. 1 < length scc) sccs) \<and> distinct ws \<and>
        (\<forall>scc. scc \<in> set sccs \<and> 1 < length scc \<longrightarrow>
           MutuallyRecursive scc \<in> set ws \<and>
           (\<forall>k \<in> set scc. k \<notin> dependKey ` set out) \<and>
           (\<forall>names. MutuallyRecursive names \<in> set ws \<and> set names \<inter> set scc \<noteq> {} \<longrightarrow>
              names = scc)) \<and>
        (\<forall>a b fa fb.
           ClassGenerator a \<in> set generators \<and> ClassGenerator b \<in> set generators \<and>
           className a \<noteq> className b \<and>
           fa \<in> set (fields a) \<and> type fa = ClassRef (className b) \<and>
           fb \<in> set (fields b) \<and> type fb = ClassRef (className a) \<longrightarrow>
             className a \<notin> dependKey ` set out \<and> className b \<notin> dependKey ` set out \<and>
             (\<exists>scc. MutuallyRecursive scc \<in> set ws \<and>
                className a \<in> set scc \<and> className b \<in> set scc))"
    apply (rule exI [of _ ?out])
    apply (rule exI [of _ ?ws])
    apply (rule conjI)
     apply (rule eq)
    apply (rule conjI)
     apply (rule refl)
    apply (rule conjI)
     apply (rule dw)
    apply (rule conjI)
     apply (rule A)
    apply (rule B)
    done
qed

theorem mutually_recursive_group_dropped_witness:
  "generatorsOf [exA, exB] 3 [ClassSymbol exA, ClassSymbol exB] =
     Inr ([ClassGenerator exAGen, ClassGenerator exBGen], []) \<and>
   tarjanResult (dependencies [ClassGenerator exAGen, ClassGenerator exBGen]) [[''B'', ''A'']] \<and>
   sortedGenerators [ClassGenerator exAGen, ClassGenerator exBGen] [[''B'', ''A'']] =
     Inr ([], [MutuallyRecursive [''B'', ''A'']]) \<and>
   (\<exists>out ws. sortedGenerators [ClassGenerator exAGen, ClassGenerator exBGen] [[''B'', ''A'']] =
       Inr (out, ws) \<and>
      ''A'' \<notin> dependKey ` set out \<and> ''B'' \<notin> dependKey ` set out \<and>
      (\<exists>scc. MutuallyRecursive scc \<in> set ws \<and> ''A'' \<in> set scc \<and> ''B'' \<in> set scc))"
proof -
  let ?gens = "[ClassGenerator exAGen, ClassGenerator exBGen]"
  have 1: "generatorsOf [exA, exB] 3 [ClassSymbol exA, ClassSymbol exB] = Inr (?gens, [])"
    by (simp add: generatorsOf_def resolve_def eval_vendor exA_def exB_def exAGen_def exBGen_def
        numeral_3_eq_3)
  have 2: "tarjanResult (dependencies ?gens) [[''B'', ''A'']]" by (rule exAB_tarjan)
  have 3: "sortedGenerators ?gens [[''B'', ''A'']] = Inr ([], [MutuallyRecursive [''B'', ''A'']])"
    by (simp add: eval_graph exAGen_def exBGen_def)
  note T = mutually_recursive_group_dropped [where generators = ?gens
      and sccs = "[[''B'', ''A'']]", THEN mp, OF 2]
  have 4: "\<exists>out ws. sortedGenerators ?gens [[''B'', ''A'']] = Inr (out, ws) \<and>
      ''A'' \<notin> dependKey ` set out \<and> ''B'' \<notin> dependKey ` set out \<and>
      (\<exists>scc. MutuallyRecursive scc \<in> set ws \<and> ''A'' \<in> set scc \<and> ''B'' \<in> set scc)"
    using T
    apply (elim exE conjE)
    subgoal for out ws
      apply (rule exI [of _ out], rule exI [of _ ws])
      apply (drule spec [of _ exAGen], drule spec [of _ exBGen],
          drule spec [of _ "IdentifierGen ''b'' (ClassRef ''B'')"],
          drule spec [of _ "IdentifierGen ''a'' (ClassRef ''A'')"])
      apply (thin_tac "All _")
      apply (simp add: exAGen_def exBGen_def)
      done
    done
  from 1 2 3 4 show ?thesis by (intro conjI)
qed

text \<open>
  C2 as stated fails for two structured types with fields of the type of each other that
  are not both built with these fields. Two interfaces \<open>A\<close> and \<open>B\<close>: the type of
  either field is not a class type, both fields are dropped with a warning, and both
  interfaces are emitted. Two classes \<open>A\<close> and \<open>B\<close> of which \<open>A\<close> fails to build, here by
  a field of a denylisted class type: \<open>B\<close>, built while \<open>A\<close> was under construction, is
  emitted with its field of type \<open>A\<close>. In neither run is there a \<open>MutuallyRecursive\<close>
  warning.
\<close>

theorem fields_of_each_other_emitted_counterexample:
  "generatorsOf [exIA, exIB] 3 [InterfaceSymbol exIA, InterfaceSymbol exIB] =
     Inr ([ClassGenerator exIAGen, ClassGenerator exIBGen],
          [CouldNotTranslateProperty ''b'' ''A'' (TOther ''B''),
           CouldNotTranslateProperty ''a'' ''B'' (TOther ''A'')]) \<and>
   tarjanResult (dependencies [ClassGenerator exIAGen, ClassGenerator exIBGen])
     [[''A''], [''B'']] \<and>
   sortedGenerators [ClassGenerator exIAGen, ClassGenerator exIBGen] [[''A''], [''B'']] =
     Inr ([ClassGenerator exIAGen, ClassGenerator exIBGen], []) \<and>
   generatorsOf [exFA, exB, exNodeList] 3
       [ClassSymbol exFA, ClassSymbol exB, ClassSymbol exNodeList] =
     Inr ([ClassGenerator exBGen],
          [ConstructFailed ''Refusing to translate blacklisted class NodeList'',
           ConstructFailed ''Refusing to translate blacklisted class NodeList'']) \<and>
   tarjanResult (dependencies [ClassGenerator exBGen]) [[''A''], [''B'']] \<and>
   sortedGenerators [ClassGenerator exBGen] [[''A''], [''B'']] =
     Inr ([ClassGenerator exBGen], [])"
proof -
  have 1: "generatorsOf [exIA, exIB] 3 [InterfaceSymbol exIA, InterfaceSymbol exIB] =
     Inr ([ClassGenerator exIAGen, ClassGenerator exIBGen],
          [CouldNotTranslateProperty ''b'' ''A'' (TOther ''B''),
           CouldNotTranslateProperty ''a'' ''B'' (TOther ''A'')])"
    by (simp add: generatorsOf_def resolve_def eval_vendor exIA_def exIB_def exIAGen_def
        exIBGen_def numeral_3_eq_3)
  have 2: "tarjanResult (dependencies [ClassGenerator exIAGen, ClassGenerator exIBGen])
     [[''A''], [''B'']]"
    by (auto simp: tarjanResult_def eval_graph exIAGen_def exIBGen_def)
  have 3: "sortedGenerators [ClassGenerator exIAGen, ClassGenerator exIBGen] [[''A''], [''B'']] =
     Inr ([ClassGenerator exIAGen, ClassGenerator exIBGen], [])"
    by (simp add: eval_graph exIAGen_def exIBGen_def)
  have 4: "generatorsOf [exFA, exB, exNodeList] 3
       [ClassSymbol exFA, ClassSymbol exB, ClassSymbol exNodeList] =
     Inr ([ClassGenerator exBGen],
          [ConstructFailed ''Refusing to translate blacklisted class NodeList'',
           ConstructFailed ''Refusing to translate blacklisted class NodeList''])"
    by (simp add: generatorsOf_def resolve_def eval_vendor exFA_def exB_def exNodeList_def
        exBGen_def numeral_3_eq_3)
  have 5: "tarjanResult (dependencies [ClassGenerator exBGen]) [[''A''], [''B'']]"
    by (auto simp: tarjanResult_def eval_graph exBGen_def All_less_Suc numeral_2_eq_2)
  have 6: "sortedGenerators [ClassGenerator exBGen] [[''A''], [''B'']] =
     Inr ([ClassGenerator exBGen], [])"
    by (simp add: eval_graph exBGen_def)
  from 1 2 3 4 5 6 show ?thesis by (intro conjI)
qed

section \<open>A declaration that depends on itself\<close>

text \<open>
  C10 (amended). Let the component analysis return \<open>sccs\<close> for the graph of the
  generators, and let \<open>gen\<close> be a generator, the only one with its key, whose dependency
  keys contain its own key, and whose key lies on no cycle through another key (no other
  key is reachable from it and reaches it). Then the key of \<open>gen\<close> is a component of its
  own, \<open>gen\<close> is in the output, and no \<open>MutuallyRecursive\<close> warning names its key.
\<close>

theorem self_dependent_declaration_emitted:
  "tarjanResult (dependencies generators) sccs \<and>
   gen \<in> set generators \<and>
   (\<forall>other \<in> set generators. dependKey other = dependKey gen \<longrightarrow> other = gen) \<and>
   dependKey gen \<in> set (depends gen) \<and>
   (\<forall>v. v \<noteq> dependKey gen \<longrightarrow>
      \<not> ((dependKey gen, v) \<in> (set (edges (dependencies generators)))\<^sup>* \<and>
         (v, dependKey gen) \<in> (set (edges (dependencies generators)))\<^sup>*)) \<longrightarrow>
     (\<exists>out ws. sortedGenerators generators sccs = Inr (out, ws) \<and>
        [dependKey gen] \<in> set sccs \<and> gen \<in> set out \<and>
        (\<forall>names. MutuallyRecursive names \<in> set ws \<longrightarrow> dependKey gen \<notin> set names))"
proof
  assume h: "tarjanResult (dependencies generators) sccs \<and>
   gen \<in> set generators \<and>
   (\<forall>other \<in> set generators. dependKey other = dependKey gen \<longrightarrow> other = gen) \<and>
   dependKey gen \<in> set (depends gen) \<and>
   (\<forall>v. v \<noteq> dependKey gen \<longrightarrow>
      \<not> ((dependKey gen, v) \<in> (set (edges (dependencies generators)))\<^sup>* \<and>
         (v, dependKey gen) \<in> (set (edges (dependencies generators)))\<^sup>*))"
  let ?G = "dependencies generators"
  let ?k = "dependKey gen"
  let ?out = "List.map_filter (\<lambda>scc. node ?G (hd scc)) (filter (\<lambda>scc. length scc = 1) sccs)"
  let ?ws = "map MutuallyRecursive (filter (\<lambda>scc. 1 < length scc) sccs)"
  note t = h [THEN conjunct1]
  note gen = h [THEN conjunct2, THEN conjunct1]
  note uniq = h [THEN conjunct2, THEN conjunct2, THEN conjunct1]
  note nocycle = h [THEN conjunct2, THEN conjunct2, THEN conjunct2, THEN conjunct2]
  have eq: "sortedGenerators generators sccs = Inr (?out, ?ws)"
    by (rule sortedGenerators_eq [OF t])
  from dependencies_labelled [OF gen] obtain y where y: "node ?G ?k = Some y" by blast
  from dependencies_node [OF y] have "y \<in> set generators" "dependKey y = ?k" by simp_all
  with uniq have "y = gen" by blast
  with y have lab: "node ?G ?k = Some gen" by simp
  from gen have "?k \<in> set (nodeIds ?G)" by (auto simp: dependencies_nodeIds)
  moreover from t have "set (concat sccs) = set (nodeIds ?G)" by (simp add: tarjanResult_def)
  ultimately have "?k \<in> set (concat sccs)" by simp
  then obtain scc where scc: "scc \<in> set sccs" "?k \<in> set scc" by auto
  have only: "v = ?k" if "v \<in> set scc" for v
  proof (rule ccontr)
    assume "v \<noteq> ?k"
    moreover from t scc that have "(?k, v) \<in> (set (edges ?G))\<^sup>*" "(v, ?k) \<in> (set (edges ?G))\<^sup>*"
      by (auto simp: tarjanResult_def)
    ultimately show False using nocycle by blast
  qed
  from t scc(1) have ds: "distinct scc" by (auto simp: tarjanResult_def distinct_concat_iff)
  have single: "scc = [?k]"
  proof (cases scc)
    case Nil
    with scc(2) show ?thesis by simp
  next
    case (Cons x xs)
    then have x: "x = ?k" using only [of x] by simp
    have "xs = []"
    proof (cases xs)
      case Nil
      then show ?thesis .
    next
      case (Cons y ys)
      with \<open>scc = x # xs\<close> have "y = ?k" using only [of y] by simp
      with x Cons \<open>scc = x # xs\<close> ds show ?thesis by simp
    qed
    with Cons x show ?thesis by simp
  qed
  with scc(1) have in_sccs: "[?k] \<in> set sccs" by simp
  with lab have emitted: "gen \<in> set ?out"
    by (auto simp: in_map_filter intro!: bexI [of _ "[?k]"])
  have quiet: "\<forall>names. MutuallyRecursive names \<in> set ?ws \<longrightarrow> ?k \<notin> set names"
  proof (intro allI impI notI)
    fix names
    assume "MutuallyRecursive names \<in> set ?ws" and "?k \<in> set names"
    then have "names \<in> set sccs" "1 < length names" "?k \<in> set names" by auto
    from tarjanResult_same [OF t this(1) in_sccs this(3)] this(2) show False by simp
  qed
  show "\<exists>out ws. sortedGenerators generators sccs = Inr (out, ws) \<and>
        [?k] \<in> set sccs \<and> gen \<in> set out \<and>
        (\<forall>names. MutuallyRecursive names \<in> set ws \<longrightarrow> ?k \<notin> set names)"
    apply (rule exI [of _ ?out])
    apply (rule exI [of _ ?ws])
    apply (rule conjI)
     apply (rule eq)
    apply (rule conjI)
     apply (rule in_sccs)
    apply (rule conjI)
     apply (rule emitted)
    apply (rule quiet)
    done
qed

theorem self_dependent_declaration_emitted_witness:
  "tarjanResult (dependencies [ClassGenerator exSelfGen]) [[''Foo'']] \<and>
   dependKey (ClassGenerator exSelfGen) \<in> set (depends (ClassGenerator exSelfGen)) \<and>
   {v. (''Foo'', v) \<in> (set (edges (dependencies [ClassGenerator exSelfGen])))\<^sup>*} = {''Foo''} \<and>
   (\<exists>out ws. sortedGenerators [ClassGenerator exSelfGen] [[''Foo'']] = Inr (out, ws) \<and>
      [''Foo''] \<in> set [[''Foo'']] \<and> ClassGenerator exSelfGen \<in> set out \<and>
      (\<forall>names. MutuallyRecursive names \<in> set ws \<longrightarrow> ''Foo'' \<notin> set names))"
proof -
  let ?gens = "[ClassGenerator exSelfGen]"
  have k: "dependKey (ClassGenerator exSelfGen) = ''Foo''" by (simp add: exSelfGen_def)
  have 1: "tarjanResult (dependencies ?gens) [[''Foo'']]" by (rule exSelf_tarjan)
  have 2: "dependKey (ClassGenerator exSelfGen) \<in> set (depends (ClassGenerator exSelfGen))"
    by (simp add: eval_graph exSelfGen_def)
  have 3: "{v. (''Foo'', v) \<in> (set (edges (dependencies ?gens)))\<^sup>*} = {''Foo''}"
    using exSelf_only_cycle by auto
  have 4: "\<forall>v. v \<noteq> dependKey (ClassGenerator exSelfGen) \<longrightarrow>
      \<not> ((dependKey (ClassGenerator exSelfGen), v) \<in> (set (edges (dependencies ?gens)))\<^sup>* \<and>
         (v, dependKey (ClassGenerator exSelfGen)) \<in> (set (edges (dependencies ?gens)))\<^sup>*)"
    unfolding k using exSelf_only_cycle by blast
  have 5: "ClassGenerator exSelfGen \<in> set ?gens \<and>
   (\<forall>other \<in> set ?gens. dependKey other = dependKey (ClassGenerator exSelfGen) \<longrightarrow>
      other = ClassGenerator exSelfGen)"
    by simp
  from self_dependent_declaration_emitted [where generators = ?gens and sccs = "[[''Foo'']]"
      and gen = "ClassGenerator exSelfGen", THEN mp, OF conjI [OF 1 conjI [OF conjunct1 [OF 5]
        conjI [OF conjunct2 [OF 5] conjI [OF 2 4]]]]]
  have "\<exists>out ws. sortedGenerators ?gens [[''Foo'']] = Inr (out, ws) \<and>
      [''Foo''] \<in> set [[''Foo'']] \<and> ClassGenerator exSelfGen \<in> set out \<and>
      (\<forall>names. MutuallyRecursive names \<in> set ws \<longrightarrow> ''Foo'' \<notin> set names)"
    unfolding k .
  with 1 2 3 show ?thesis by (intro conjI)
qed

text \<open>
  C10 as stated fails: the class \<open>S\<close> has a field of its own type, so its dependency keys
  contain its own key; it also has a field of type \<open>T\<close>, and \<open>T\<close> a field of type \<open>S\<close>.
  \<open>S\<close> is then in a component of two members: it is not emitted, and the warning names it.
\<close>

theorem self_dependent_in_cycle_counterexample:
  "generatorsOf [exS, exT] 3 [ClassSymbol exS, ClassSymbol exT] =
     Inr ([ClassGenerator exSGen, ClassGenerator exTGen], []) \<and>
   dependKey (ClassGenerator exSGen) \<in> set (depends (ClassGenerator exSGen)) \<and>
   tarjanResult (dependencies [ClassGenerator exSGen, ClassGenerator exTGen]) [[''T'', ''S'']] \<and>
   sortedGenerators [ClassGenerator exSGen, ClassGenerator exTGen] [[''T'', ''S'']] =
     Inr ([], [MutuallyRecursive [''T'', ''S'']])"
proof -
  have 1: "generatorsOf [exS, exT] 3 [ClassSymbol exS, ClassSymbol exT] =
     Inr ([ClassGenerator exSGen, ClassGenerator exTGen], [])"
    by (simp add: generatorsOf_def resolve_def eval_vendor exS_def exT_def exSGen_def exTGen_def
        numeral_3_eq_3)
  have 2: "dependKey (ClassGenerator exSGen) \<in> set (depends (ClassGenerator exSGen))"
    by (simp add: eval_graph exSGen_def)
  have 3: "tarjanResult (dependencies [ClassGenerator exSGen, ClassGenerator exTGen])
      [[''T'', ''S'']]"
    by (auto simp: tarjanResult_def eval_graph exSGen_def exTGen_def intro!: r_into_rtrancl)
  have 4: "sortedGenerators [ClassGenerator exSGen, ClassGenerator exTGen] [[''T'', ''S'']] =
     Inr ([], [MutuallyRecursive [''T'', ''S'']])"
    by (simp add: eval_graph exSGen_def exTGen_def)
  from 1 2 3 4 show ?thesis by (intro conjI)
qed

section \<open>Identifier scrubbing: behaviour on repeated underscore runs\<close>

text \<open>
  C5. The sanitizer is meant to be idempotent. Because only the first run of underscores
  is collapsed, scrubbing \<open>a__b__c\<close> gives \<open>a_b__c\<close>, and scrubbing that again gives
  \<open>a_b_c\<close>: the second application still changes the name.
\<close>

theorem identifierScrub_twice_differs:
  "identifierScrub ''a__b__c'' = ''a_b__c'' \<and>
   identifierScrub (identifierScrub ''a__b__c'') = ''a_b_c'' \<and>
   identifierScrub (identifierScrub ''a__b__c'') \<noteq> identifierScrub ''a__b__c''"
  by (simp add: identifierScrub_def reserved_def)

text \<open>
  C6. Every run of two or more underscores should become a single underscore. On
  \<open>x__y___z\<close> the first run is collapsed and the second run of three underscores is
  left in the result as it was.
\<close>

theorem identifierScrub_keeps_second_run:
  "identifierScrub ''x__y___z'' = ''x_y___z''"
  by (simp add: identifierScrub_def reserved_def)

end
